theory Spec2Isabelle
  imports Main "HOL-Library.Sublist" "HOL-Library.Code_Target_Nat"
begin

text \<open>
  The heuristic resume parser of the portfolio builder: \<^verbatim>\<open>parseResumeText\<close> and the
  functions it calls (\<^verbatim>\<open>guessNameFromText\<close>, \<^verbatim>\<open>extractSkills\<close>,
  \<^verbatim>\<open>extractEducation\<close>, \<^verbatim>\<open>extractExperience\<close>, \<^verbatim>\<open>extractProjects\<close>,
  \<^verbatim>\<open>extractSummary\<close>, \<^verbatim>\<open>findSection\<close>, \<^verbatim>\<open>cap\<close>), translated function by
  function. The string methods and the regular expressions the parser uses come first,
  then the parser, then what is proved of it.
\<close>

section \<open>JavaScript strings\<close>

text \<open>
  A JavaScript string is a sequence of UTF-16 code units. The parser's regular
  expressions have no \<^verbatim>\<open>u\<close> flag, so they too work on code units. A code
  unit is modelled as a natural number and a string as a list of them; \<open>js\<close>
  embeds an ASCII literal. The three non-ASCII characters of the source are the
  bullet U+2022, the en dash U+2013 and the em dash U+2014. Every list of code units
  is a list of natural numbers, so what is proved for all lists of natural numbers
  holds for all strings.
\<close>

type_synonym jschar = nat
type_synonym jsstring = "nat list"

definition js :: "string \<Rightarrow> jsstring" where
  "js s = map of_char s"

definition bullet :: jschar where "bullet = 8226"
definition en_dash :: jschar where "en_dash = 8211"
definition em_dash :: jschar where "em_dash = 8212"

definition in_range :: "jschar \<Rightarrow> jschar \<Rightarrow> jschar \<Rightarrow> bool" where
  "in_range lo hi c = (lo \<le> c \<and> c \<le> hi)"

definition is_digit :: "jschar \<Rightarrow> bool" where
  \<comment> \<open>\<^verbatim>\<open>\d\<close>\<close>
  "is_digit c = in_range 48 57 c"

definition is_upper :: "jschar \<Rightarrow> bool" where
  \<comment> \<open>\<^verbatim>\<open>[A-Z]\<close>\<close>
  "is_upper c = in_range 65 90 c"

definition is_lower :: "jschar \<Rightarrow> bool" where
  \<comment> \<open>\<^verbatim>\<open>[a-z]\<close>\<close>
  "is_lower c = in_range 97 122 c"

definition is_alpha :: "jschar \<Rightarrow> bool" where
  \<comment> \<open>\<^verbatim>\<open>[a-zA-Z]\<close>, which is also \<^verbatim>\<open>[A-Z]\<close> under the \<^verbatim>\<open>i\<close> flag\<close>
  "is_alpha c = (is_upper c \<or> is_lower c)"

definition is_word :: "jschar \<Rightarrow> bool" where
  \<comment> \<open>\<^verbatim>\<open>\w\<close>: \<^verbatim>\<open>[A-Za-z0-9_]\<close>\<close>
  "is_word c = (is_alpha c \<or> is_digit c \<or> c = 95)"

definition is_space :: "jschar \<Rightarrow> bool" where
  \<comment> \<open>\<^verbatim>\<open>\s\<close> and the characters \<^verbatim>\<open>trim()\<close> strips: WhiteSpace and LineTerminator\<close>
  "is_space c = (in_range 9 13 c \<or> c = 32 \<or> c = 160 \<or> c = 5760 \<or> in_range 8192 8202 c
                 \<or> c = 8232 \<or> c = 8233 \<or> c = 8239 \<or> c = 8287 \<or> c = 12288 \<or> c = 65279)"

definition is_line_terminator :: "jschar \<Rightarrow> bool" where
  "is_line_terminator c = (c = 10 \<or> c = 13 \<or> c = 8232 \<or> c = 8233)"

definition to_upper :: "jschar \<Rightarrow> jschar" where
  \<comment> \<open>\<^verbatim>\<open>toUpperCase\<close> on the code units the parser applies it to (\<^verbatim>\<open>\w\<close>), and
      the canonicalisation of the \<^verbatim>\<open>i\<close> flag on ASCII: without the \<^verbatim>\<open>u\<close> flag a
      code unit above 127 never canonicalises to an ASCII one\<close>
  "to_upper c = (if is_lower c then c - 32 else c)"

definition trim :: "jsstring \<Rightarrow> jsstring" where
  "trim s = rev (dropWhile is_space (rev (dropWhile is_space s)))"

fun split_acc :: "jschar \<Rightarrow> jsstring \<Rightarrow> jsstring \<Rightarrow> jsstring list" where
  "split_acc sep acc [] = [rev acc]"
| "split_acc sep acc (x # xs) =
     (if x = sep then rev acc # split_acc sep [] xs else split_acc sep (x # acc) xs)"

definition split_str :: "jschar \<Rightarrow> jsstring \<Rightarrow> jsstring list" where
  \<comment> \<open>\<^verbatim>\<open>s.split(sep)\<close> for a separator of one code unit\<close>
  "split_str sep s = split_acc sep [] s"

fun join_str :: "jsstring \<Rightarrow> jsstring list \<Rightarrow> jsstring" where
  "join_str sep [] = []"
| "join_str sep [x] = x"
| "join_str sep (x # y # ys) = x @ sep @ join_str sep (y # ys)"

definition nonempty :: "jsstring list \<Rightarrow> jsstring list" where
  \<comment> \<open>\<^verbatim>\<open>.filter(Boolean)\<close> on an array of strings: the empty string is the falsy one\<close>
  "nonempty xs = filter (\<lambda>s. s \<noteq> []) xs"

definition str_includes :: "jsstring \<Rightarrow> jsstring \<Rightarrow> bool" where
  \<comment> \<open>\<^verbatim>\<open>s.includes(t)\<close>\<close>
  "str_includes s t = list_ex (\<lambda>i. take (length t) (drop i s) = t) [0..<Suc (length s)]"

fun set_insert :: "'a list \<Rightarrow> 'a \<Rightarrow> 'a list" where
  "set_insert acc x = (if x \<in> set acc then acc else acc @ [x])"

definition dedup :: "'a list \<Rightarrow> 'a list" where
  \<comment> \<open>\<^verbatim>\<open>Array.from(new Set(xs))\<close>: a Set keeps the order of first insertion\<close>
  "dedup xs = foldl set_insert [] xs"

section \<open>Regular expressions\<close>

text \<open>
  The regular expressions of the source, as a datatype with a backtracking matcher.
  \<open>rmatch r (p, s)\<close> lists every way \<open>r\<close> can match a prefix of \<open>s\<close> when \<open>p\<close> is the
  code unit before it (\<open>None\<close> at the start of the input), in the order a backtracking
  engine tries them: the head of the list is the match JavaScript reports.
  Quantifiers are greedy, an iteration of \<open>Star\<close> that consumes nothing is dropped as
  ECMAScript's RepeatMatcher does. No expression of the source uses \<^verbatim>\<open>^\<close> or \<^verbatim>\<open>$\<close>
  together with the \<^verbatim>\<open>m\<close> flag, so \<open>Bol\<close> and \<open>Eol\<close> are the two ends of the input.
\<close>

datatype regex =
    Cls "jschar \<Rightarrow> bool"
  | Eps
  | Seq regex regex
  | Alt regex regex
  | Star regex
  | Bol
  | Eol
  | WordB

type_synonym ctx = "jschar option \<times> jsstring"

fun star_iter :: "(ctx \<Rightarrow> ctx list) \<Rightarrow> nat \<Rightarrow> ctx \<Rightarrow> ctx list" where
  "star_iter m 0 c = [c]"
| "star_iter m (Suc n) c =
     concat (map (star_iter m n) (filter (\<lambda>c'. length (snd c') < length (snd c)) (m c))) @ [c]"

definition word_before :: "ctx \<Rightarrow> bool" where
  "word_before c = (case fst c of None \<Rightarrow> False | Some a \<Rightarrow> is_word a)"

definition word_after :: "ctx \<Rightarrow> bool" where
  "word_after c = (case snd c of [] \<Rightarrow> False | b # _ \<Rightarrow> is_word b)"

primrec rmatch :: "regex \<Rightarrow> ctx \<Rightarrow> ctx list" where
  "rmatch (Cls p) c = (case snd c of [] \<Rightarrow> [] | x # xs \<Rightarrow> if p x then [(Some x, xs)] else [])"
| "rmatch Eps c = [c]"
| "rmatch (Seq a b) c = concat (map (rmatch b) (rmatch a c))"
| "rmatch (Alt a b) c = rmatch a c @ rmatch b c"
| "rmatch (Star r) c = star_iter (rmatch r) (length (snd c)) c"
| "rmatch Bol c = (if fst c = None then [c] else [])"
| "rmatch Eol c = (if snd c = [] then [c] else [])"
| "rmatch WordB c = (if word_before c \<noteq> word_after c then [c] else [])"

subsection \<open>Derived forms\<close>

definition chr :: "jschar \<Rightarrow> regex" where
  "chr k = Cls (\<lambda>c. c = k)"

definition chr_ci :: "jschar \<Rightarrow> regex" where
  \<comment> \<open>a literal character under the \<^verbatim>\<open>i\<close> flag\<close>
  "chr_ci k = Cls (\<lambda>c. to_upper c = to_upper k)"

fun seqs :: "regex list \<Rightarrow> regex" where
  "seqs [] = Eps"
| "seqs [r] = r"
| "seqs (r # rs) = Seq r (seqs rs)"

fun alts :: "regex list \<Rightarrow> regex" where
  "alts [] = Cls (\<lambda>c. False)"
| "alts [r] = r"
| "alts (r # rs) = Alt r (alts rs)"

definition lit :: "string \<Rightarrow> regex" where
  "lit w = seqs (map chr (js w))"

definition lit_ci :: "string \<Rightarrow> regex" where
  "lit_ci w = seqs (map chr_ci (js w))"

definition words_ci :: "string list \<Rightarrow> regex" where
  \<comment> \<open>\<^verbatim>\<open>(w1|w2|...)\<close> under the \<^verbatim>\<open>i\<close> flag\<close>
  "words_ci ws = alts (map lit_ci ws)"

definition Opt :: "regex \<Rightarrow> regex" where
  \<comment> \<open>\<^verbatim>\<open>r?\<close>\<close>
  "Opt r = Alt r Eps"

definition Plus :: "regex \<Rightarrow> regex" where
  \<comment> \<open>\<^verbatim>\<open>r+\<close>\<close>
  "Plus r = Seq r (Star r)"

fun repn :: "nat \<Rightarrow> regex \<Rightarrow> regex" where
  \<comment> \<open>\<^verbatim>\<open>r{n}\<close>\<close>
  "repn 0 r = Eps"
| "repn (Suc n) r = Seq r (repn n r)"

definition at_least :: "nat \<Rightarrow> regex \<Rightarrow> regex" where
  \<comment> \<open>\<^verbatim>\<open>r{n,}\<close>\<close>
  "at_least n r = Seq (repn n r) (Star r)"

fun at_most :: "nat \<Rightarrow> regex \<Rightarrow> regex" where
  \<comment> \<open>\<^verbatim>\<open>r{0,n}\<close>, greedy; every \<open>r\<close> it is used with consumes one code unit\<close>
  "at_most 0 r = Eps"
| "at_most (Suc n) r = Opt (Seq r (at_most n r))"

subsection \<open>The methods that take a regular expression\<close>

fun search :: "regex \<Rightarrow> jschar option \<Rightarrow> jsstring \<Rightarrow> (jsstring \<times> jsstring \<times> ctx) option" where
  \<comment> \<open>the leftmost match from the current position: the text skipped, the text
      matched, and the position after it\<close>
  "search r pr [] = (case rmatch r (pr, []) of [] \<Rightarrow> None | c # _ \<Rightarrow> Some ([], [], c))"
| "search r pr (x # xs) =
     (case rmatch r (pr, x # xs) of
        c # _ \<Rightarrow> Some ([], take (Suc (length xs) - length (snd c)) (x # xs), c)
      | [] \<Rightarrow> (case search r (Some x) xs of
                 None \<Rightarrow> None
               | Some (pre, m, c) \<Rightarrow> Some (x # pre, m, c)))"

definition test :: "regex \<Rightarrow> jsstring \<Rightarrow> bool" where
  \<comment> \<open>\<^verbatim>\<open>re.test(s)\<close> for an expression without the \<^verbatim>\<open>g\<close> and \<^verbatim>\<open>y\<close> flags\<close>
  "test r s = (search r None s \<noteq> None)"

definition match_first :: "regex \<Rightarrow> jsstring \<Rightarrow> jsstring option" where
  \<comment> \<open>\<^verbatim>\<open>s.match(re)\<close> without the \<^verbatim>\<open>g\<close> flag: \<^verbatim>\<open>null\<close>, or the array whose element 0 is
      the matched text\<close>
  "match_first r s = (case search r None s of None \<Rightarrow> None | Some (pre, m, c) \<Rightarrow> Some m)"

definition replace_first :: "regex \<Rightarrow> jsstring \<Rightarrow> jsstring \<Rightarrow> jsstring" where
  \<comment> \<open>\<^verbatim>\<open>s.replace(re, rep)\<close> without the \<^verbatim>\<open>g\<close> flag\<close>
  "replace_first r rep s =
     (case search r None s of None \<Rightarrow> s | Some (pre, m, c) \<Rightarrow> pre @ rep @ snd c)"

function scan_g :: "regex \<Rightarrow> jschar option \<Rightarrow> jsstring \<Rightarrow> jsstring \<Rightarrow> (jsstring \<times> jsstring) list \<times> jsstring" where
  \<comment> \<open>the successive matches of an expression with the \<^verbatim>\<open>g\<close> flag: each with the
      text between it and the match before, and the text after the last one. After
      an empty match the search moves on by one code unit (AdvanceStringIndex).\<close>
  "scan_g r pr gap [] =
     (case rmatch r (pr, []) of [] \<Rightarrow> ([], rev gap) | c # _ \<Rightarrow> ([(rev gap, [])], []))"
| "scan_g r pr gap (x # xs) =
     (case rmatch r (pr, x # xs) of
        [] \<Rightarrow> scan_g r (Some x) (x # gap) xs
      | c # _ \<Rightarrow>
          if length (snd c) < Suc (length xs) then
            (case scan_g r (fst c) [] (snd c) of
               (ms, rest) \<Rightarrow> ((rev gap, take (Suc (length xs) - length (snd c)) (x # xs)) # ms, rest))
          else
            (case scan_g r (Some x) [x] xs of
               (ms, rest) \<Rightarrow> ((rev gap, []) # ms, rest)))"
  by pat_completeness auto
termination
  by (relation "measure (\<lambda>(r, pr, gap, s). length s)") auto

definition match_all :: "regex \<Rightarrow> jsstring \<Rightarrow> jsstring list" where
  \<comment> \<open>\<^verbatim>\<open>s.match(re) || []\<close> with the \<^verbatim>\<open>g\<close> flag: all matched texts\<close>
  "match_all r s = map snd (fst (scan_g r None [] s))"

definition replace_all :: "regex \<Rightarrow> (jsstring \<Rightarrow> jsstring) \<Rightarrow> jsstring \<Rightarrow> jsstring" where
  \<comment> \<open>\<^verbatim>\<open>s.replace(re, f)\<close> with the \<^verbatim>\<open>g\<close> flag\<close>
  "replace_all r f s =
     (case scan_g r None [] s of (ms, rest) \<Rightarrow> concat (map (\<lambda>(g, m). g @ f m) ms) @ rest)"

function split_go :: "regex \<Rightarrow> jschar option \<Rightarrow> jsstring \<Rightarrow> jsstring \<Rightarrow> jsstring list" where
  \<comment> \<open>the loop of \<^verbatim>\<open>RegExp.prototype[Symbol.split]\<close>: \<open>acc\<close> is the piece since the
      last separator (reversed), the fourth argument the text from position \<open>q\<close> on.
      A match that ends where the piece starts moves \<open>q\<close> on by one.\<close>
  "split_go r pr acc [] = [rev acc]"
| "split_go r pr acc (x # xs) =
     (case rmatch r (pr, x # xs) of
        [] \<Rightarrow> split_go r (Some x) (x # acc) xs
      | c # _ \<Rightarrow>
          if length (snd c) < Suc (length xs) then rev acc # split_go r (fst c) [] (snd c)
          else if acc = [] then split_go r (Some x) (x # acc) xs
          else rev acc # split_go r pr [] (x # xs))"
  by pat_completeness auto
termination
  by (relation "measure (\<lambda>(r, pr, acc, s). 2 * length s + (if acc = [] then 0 else 1))") auto

definition split_re :: "regex \<Rightarrow> jsstring \<Rightarrow> jsstring list" where
  \<comment> \<open>\<^verbatim>\<open>s.split(re)\<close> for an expression without capture groups\<close>
  "split_re r s =
     (if s = [] then (if rmatch r (None, []) = [] then [[]] else []) else split_go r None [] s)"

fun find_index :: "('a \<Rightarrow> bool) \<Rightarrow> 'a list \<Rightarrow> nat option" where
  \<comment> \<open>\<^verbatim>\<open>xs.findIndex(p)\<close>, with \<open>None\<close> for \<^verbatim>\<open>-1\<close>\<close>
  "find_index p [] = None"
| "find_index p (x # xs) =
     (if p x then Some 0 else (case find_index p xs of None \<Rightarrow> None | Some i \<Rightarrow> Some (Suc i)))"

fun nth_opt :: "'a list \<Rightarrow> nat \<Rightarrow> 'a option" where
  \<comment> \<open>\<^verbatim>\<open>xs[i]\<close>, with \<open>None\<close> for \<^verbatim>\<open>undefined\<close>\<close>
  "nth_opt [] i = None"
| "nth_opt (x # xs) 0 = Some x"
| "nth_opt (x # xs) (Suc i) = nth_opt xs i"

section \<open>Errors\<close>

text \<open>
  The parser has no \<^verbatim>\<open>throw\<close> of its own. What JavaScript raises by itself in this
  code is a TypeError, when a property is read from or written to \<^verbatim>\<open>null\<close> or
  \<^verbatim>\<open>undefined\<close>. A value that may be \<^verbatim>\<open>null\<close> or \<^verbatim>\<open>undefined\<close> (the result of
  \<^verbatim>\<open>match\<close>, an array element, the cursor \<^verbatim>\<open>current\<close>) is an \<open>option\<close>, and every
  property access on one goes through \<open>deref\<close>.
\<close>

datatype js_error = TypeError

definition deref :: "'a option \<Rightarrow> js_error + 'a" where
  "deref v = (case v of None \<Rightarrow> Inl TypeError | Some x \<Rightarrow> Inr x)"

definition truthy :: "jsstring option \<Rightarrow> bool" where
  \<comment> \<open>a string or \<^verbatim>\<open>undefined\<close> as a condition: \<^verbatim>\<open>undefined\<close> and the empty string are falsy\<close>
  "truthy v = (case v of None \<Rightarrow> False | Some s \<Rightarrow> s \<noteq> [])"

definition and_then :: "js_error + 'a \<Rightarrow> ('a \<Rightarrow> js_error + 'b) \<Rightarrow> js_error + 'b" where
  \<comment> \<open>sequencing: an exception ends the computation\<close>
  "and_then m f = (case m of Inl e \<Rightarrow> Inl e | Inr x \<Rightarrow> f x)"

fun forEach :: "('s \<Rightarrow> 'a \<Rightarrow> js_error + 's) \<Rightarrow> 's \<Rightarrow> 'a list \<Rightarrow> js_error + 's" where
  \<comment> \<open>\<^verbatim>\<open>xs.forEach(f)\<close> for a callback that updates the variables \<open>'s\<close> it closes
      over; an exception in the callback ends the loop\<close>
  "forEach f s [] = Inr s"
| "forEach f s (x # xs) = (case f s x of Inl e \<Rightarrow> Inl e | Inr s' \<Rightarrow> forEach f s' xs)"

section \<open>The data model\<close>

text \<open>
  The object \<^verbatim>\<open>parseResumeText\<close> returns and its parts. The fields \<^verbatim>\<open>period\<close> and
  \<^verbatim>\<open>name\<close> occur in two kinds of object; the experience entry's is \<open>exp_period\<close>
  and the project entry's \<open>proj_name\<close> here.
\<close>

record ContactInfo =
  email :: jsstring
  phone :: jsstring
  location :: jsstring
  links :: "jsstring list"

record EducationEntry =
  degree :: jsstring
  institution :: jsstring
  period :: jsstring
  details :: jsstring

record ExperienceEntry =
  company :: jsstring
  role :: jsstring
  exp_period :: jsstring
  bullets :: "jsstring list"

record ProjectEntry =
  proj_name :: jsstring
  description :: jsstring
  tech :: "jsstring list"
  link :: jsstring

record ResumeRecord =
  name :: jsstring
  title :: jsstring
  contact :: ContactInfo
  summary :: jsstring
  skills :: "jsstring list"
  education :: "EducationEntry list"
  experience :: "ExperienceEntry list"
  projects :: "ProjectEntry list"

section \<open>The regular expressions of the source\<close>

definition any_char :: regex where
  \<comment> \<open>\<^verbatim>\<open>.\<close> without the \<^verbatim>\<open>s\<close> flag\<close>
  "any_char = Cls (\<lambda>c. \<not> is_line_terminator c)"

definition url_tail :: regex where
  \<comment> \<open>\<^verbatim>\<open>[^\s)]+\<close>; no character of the excluded set has another case, so the \<^verbatim>\<open>i\<close>
      flag does not change it\<close>
  "url_tail = Plus (Cls (\<lambda>c. \<not> is_space c \<and> c \<noteq> 41))"

definition email_re :: regex where
  \<comment> \<open>\<^verbatim>\<open>/[A-Z0-9._%+-]+@[A-Z0-9.-]+\.[A-Z]{2,}/im\<close>\<close>
  "email_re = seqs [Plus (Cls (\<lambda>c. is_alpha c \<or> is_digit c \<or> c \<in> set (js ''._%+-''))),
                    lit ''@'',
                    Plus (Cls (\<lambda>c. is_alpha c \<or> is_digit c \<or> c \<in> set (js ''.-''))),
                    lit ''.'',
                    at_least 2 (Cls is_alpha)]"

definition phone_re :: regex where
  \<comment> \<open>\<^verbatim>\<open>/(\+?\d[\d\s\-().]{7,}\d)/m\<close>\<close>
  "phone_re = seqs [Opt (lit ''+''), Cls is_digit,
                    at_least 7 (Cls (\<lambda>c. is_digit c \<or> is_space c \<or> c \<in> set (js ''-().''))),
                    Cls is_digit]"

definition location_re :: regex where
  \<comment> \<open>\<^verbatim>\<open>/\b([A-Z][a-zA-Z]+(?:,\s*[A-Z][a-zA-Z]+)+)\b/\<close>; its group 1 spans the whole
      match, \<^verbatim>\<open>\b\<close> having no width\<close>
  "location_re = seqs [WordB, Cls is_upper, Plus (Cls is_alpha),
                       Plus (seqs [lit '','', Star (Cls is_space), Cls is_upper, Plus (Cls is_alpha)]),
                       WordB]"

definition http_re :: regex where
  \<comment> \<open>\<^verbatim>\<open>/https?:\/\/[^\s)]+/\<close>\<close>
  "http_re = seqs [lit ''http'', Opt (lit ''s''), lit ''://'', url_tail]"

definition www_re :: regex where
  \<comment> \<open>\<^verbatim>\<open>/\bwww\.[^\s)]+/g\<close>\<close>
  "www_re = seqs [WordB, lit ''www.'', url_tail]"

definition github_re :: regex where
  \<comment> \<open>\<^verbatim>\<open>/\bgithub\.com\/[^\s)]+/gi\<close>\<close>
  "github_re = seqs [WordB, lit_ci ''github.com/'', url_tail]"

definition linkedin_re :: regex where
  \<comment> \<open>\<^verbatim>\<open>/\blinkedin\.com\/[^\s)]+/gi\<close>\<close>
  "linkedin_re = seqs [WordB, lit_ci ''linkedin.com/'', url_tail]"

definition portfolio_re :: regex where
  \<comment> \<open>\<^verbatim>\<open>/\bportfolio\.[^\s)]+/gi\<close>\<close>
  "portfolio_re = seqs [WordB, lit_ci ''portfolio.'', url_tail]"

definition title_words :: "string list" where
  "title_words = [''email'', ''phone'', ''linkedin'', ''github'', ''summary'', ''objective'',
                  ''experience'', ''education'', ''projects'']"

definition title_re :: regex where
  \<comment> \<open>\<^verbatim>\<open>/(email|phone|linkedin|github|summary|objective|experience|education|projects)/i\<close>\<close>
  "title_re = words_ci title_words"

definition name_skip_re :: regex where
  \<comment> \<open>\<^verbatim>\<open>/^(email|contact|skills|education|experience|projects|summary|objective)\b/i\<close>\<close>
  "name_skip_re = seqs [Bol, words_ci [''email'', ''contact'', ''skills'', ''education'',
                         ''experience'', ''projects'', ''summary'', ''objective''], WordB]"

definition name_chars_re :: regex where
  \<comment> \<open>\<^verbatim>\<open>/^[A-Za-z .'-]+$/\<close>; 39 is the apostrophe\<close>
  "name_chars_re = seqs [Bol, Plus (Cls (\<lambda>c. is_alpha c \<or> c = 39 \<or> c \<in> set (js '' .-''))), Eol]"

definition spaces2_re :: regex where
  \<comment> \<open>\<^verbatim>\<open>/\s{2,}/g\<close>\<close>
  "spaces2_re = at_least 2 (Cls is_space)"

definition skills_hdr_re :: regex where
  \<comment> \<open>\<^verbatim>\<open>/(skills|technical skills)/i\<close>\<close>
  "skills_hdr_re = words_ci [''skills'', ''technical skills'']"

definition skills_split_re :: regex where
  \<comment> \<open>\<^verbatim>\<open>/[\n\<bullet>,;]+/\<close>\<close>
  "skills_split_re = Plus (Cls (\<lambda>c. c = 10 \<or> c = bullet \<or> c = 44 \<or> c = 59))"

definition skills_bare_re :: regex where
  \<comment> \<open>\<^verbatim>\<open>/^(skills|technical skills)$/i\<close>\<close>
  "skills_bare_re = seqs [Bol, words_ci [''skills'', ''technical skills''], Eol]"

definition item_split_re :: regex where
  \<comment> \<open>\<^verbatim>\<open>/[,;\<bullet>]+/\<close>\<close>
  "item_split_re = Plus (Cls (\<lambda>c. c = 44 \<or> c = 59 \<or> c = bullet))"

definition edu_hdr_re :: regex where
  \<comment> \<open>\<^verbatim>\<open>/(education|academics|academic background)/i\<close>\<close>
  "edu_hdr_re = words_ci [''education'', ''academics'', ''academic background'']"

definition edu_skip_re :: regex where
  \<comment> \<open>\<^verbatim>\<open>/^(education|academics)/i\<close>\<close>
  "edu_skip_re = seqs [Bol, words_ci [''education'', ''academics'']]"

definition degree_re :: regex where
  \<comment> \<open>\<^verbatim>\<open>/(\bB\.?Tech|B\.?E|B\.?Sc|M\.?Tech|M\.?E|M\.?Sc|Bachelor|Master|Diploma|Ph\.?D)/i\<close>\<close>
  "degree_re = alts [seqs [WordB, lit_ci ''B'', Opt (lit ''.''), lit_ci ''Tech''],
                     seqs [lit_ci ''B'', Opt (lit ''.''), lit_ci ''E''],
                     seqs [lit_ci ''B'', Opt (lit ''.''), lit_ci ''Sc''],
                     seqs [lit_ci ''M'', Opt (lit ''.''), lit_ci ''Tech''],
                     seqs [lit_ci ''M'', Opt (lit ''.''), lit_ci ''E''],
                     seqs [lit_ci ''M'', Opt (lit ''.''), lit_ci ''Sc''],
                     lit_ci ''Bachelor'', lit_ci ''Master'', lit_ci ''Diploma'',
                     seqs [lit_ci ''Ph'', Opt (lit ''.''), lit_ci ''D'']]"

definition institution_re :: regex where
  \<comment> \<open>\<^verbatim>\<open>/university|college|institute|school/i\<close>\<close>
  "institution_re = words_ci [''university'', ''college'', ''institute'', ''school'']"

definition year_range_re :: "nat \<Rightarrow> regex" where
  \<comment> \<open>\<^verbatim>\<open>/\b(20\d{2}).{0,n}(\b20\d{2}\b|present|current)/i\<close>, with \<open>n = 5\<close> in
      \<^verbatim>\<open>extractEducation\<close> and \<open>n = 12\<close> in \<^verbatim>\<open>extractExperience\<close>\<close>
  "year_range_re n = seqs [WordB, lit ''20'', repn 2 (Cls is_digit), at_most n any_char,
                           Alt (seqs [WordB, lit ''20'', repn 2 (Cls is_digit), WordB])
                               (words_ci [''present'', ''current''])]"

definition exp_hdr_re :: regex where
  \<comment> \<open>\<^verbatim>\<open>/(experience|work experience|professional experience)/i\<close>\<close>
  "exp_hdr_re = words_ci [''experience'', ''work experience'', ''professional experience'']"

definition exp_bare_re :: regex where
  \<comment> \<open>\<^verbatim>\<open>/^(experience|work experience|professional experience)$/i\<close>\<close>
  "exp_bare_re = seqs [Bol, words_ci [''experience'', ''work experience'',
                                       ''professional experience''], Eol]"

definition dash_re :: regex where
  \<comment> \<open>\<^verbatim>\<open>/[\<endash>-]/\<close>: an en dash or a hyphen\<close>
  "dash_re = Cls (\<lambda>c. c = en_dash \<or> c = 45)"

definition connector_re :: regex where
  \<comment> \<open>\<^verbatim>\<open>/at|@| - | \<endash> |\<emdash>/\<close>, case-sensitive\<close>
  "connector_re = alts [lit ''at'', lit ''@'', lit '' - '',
                        seqs [lit '' '', chr en_dash, lit '' ''], chr em_dash]"

definition role_re :: regex where
  \<comment> \<open>\<^verbatim>\<open>/intern|engineer|developer|manager|lead/i\<close>\<close>
  "role_re = words_ci [''intern'', ''engineer'', ''developer'', ''manager'', ''lead'']"

definition role_split_re :: regex where
  \<comment> \<open>\<^verbatim>\<open>/[-\<endash>\<emdash>]| at | @ /i\<close>\<close>
  "role_split_re = alts [Cls (\<lambda>c. c = 45 \<or> c = en_dash \<or> c = em_dash), lit_ci '' at '', lit '' @ '']"

definition role_part_re :: regex where
  \<comment> \<open>\<^verbatim>\<open>/intern|engineer|developer|manager|lead|analyst|consultant/i\<close>\<close>
  "role_part_re = words_ci [''intern'', ''engineer'', ''developer'', ''manager'', ''lead'',
                            ''analyst'', ''consultant'']"

definition marker_re :: regex where
  \<comment> \<open>\<^verbatim>\<open>/^[-\<bullet>]/\<close>\<close>
  "marker_re = seqs [Bol, Cls (\<lambda>c. c = 45 \<or> c = bullet)]"

definition marker_strip_re :: regex where
  \<comment> \<open>\<^verbatim>\<open>/^[-\<bullet>]\s?/\<close>\<close>
  "marker_strip_re = seqs [Bol, Cls (\<lambda>c. c = 45 \<or> c = bullet), Opt (Cls is_space)]"

definition proj_hdr_re :: regex where
  \<comment> \<open>\<^verbatim>\<open>/(projects|personal projects)/i\<close>\<close>
  "proj_hdr_re = words_ci [''projects'', ''personal projects'']"

definition proj_bare_re :: regex where
  \<comment> \<open>\<^verbatim>\<open>/^(projects|personal projects)$/i\<close>\<close>
  "proj_bare_re = seqs [Bol, words_ci [''projects'', ''personal projects''], Eol]"

definition proj_title_re :: regex where
  \<comment> \<open>\<^verbatim>\<open>/^[A-Z][A-Za-z0-9 ._-]{2,}$/\<close>\<close>
  "proj_title_re = seqs [Bol, Cls is_upper,
                         at_least 2 (Cls (\<lambda>c. is_alpha c \<or> is_digit c \<or> c \<in> set (js '' ._-''))),
                         Eol]"

definition tech_re :: regex where
  \<comment> \<open>\<^verbatim>\<open>/tech|stack|tools/i\<close>\<close>
  "tech_re = words_ci [''tech'', ''stack'', ''tools'']"

definition tech_split_re :: regex where
  \<comment> \<open>\<^verbatim>\<open>/:|-/\<close>\<close>
  "tech_split_re = Alt (lit '':'') (lit ''-'')"

definition link_re :: regex where
  \<comment> \<open>\<^verbatim>\<open>/https?:\/\/|github\.com|demo|live/i\<close>\<close>
  "link_re = alts [seqs [lit_ci ''http'', Opt (lit_ci ''s''), lit ''://''],
                   lit_ci ''github.com'', lit_ci ''demo'', lit_ci ''live'']"

definition sum_hdr_re :: regex where
  \<comment> \<open>\<^verbatim>\<open>/(summary|objective|about)/i\<close>\<close>
  "sum_hdr_re = words_ci [''summary'', ''objective'', ''about'']"

definition sum_strip_re :: regex where
  \<comment> \<open>\<^verbatim>\<open>/^(summary|objective|about)\s*:?/i\<close>\<close>
  "sum_strip_re = seqs [Bol, words_ci [''summary'', ''objective'', ''about''],
                        Star (Cls is_space), Opt (lit '':'')]"

definition sentence_end_re :: regex where
  \<comment> \<open>\<^verbatim>\<open>/[.!]$/\<close>\<close>
  "sentence_end_re = seqs [Cls (\<lambda>c. c = 46 \<or> c = 33), Eol]"

definition header_keywords :: "string list" where
  "header_keywords = [''skills'', ''technical skills'', ''experience'', ''work experience'',
                      ''professional experience'', ''education'', ''academics'', ''projects'',
                      ''personal projects'', ''summary'', ''objective'', ''about'',
                      ''certifications'', ''awards'']"

definition boundary_re :: regex where
  \<comment> \<open>the expression that bounds a section in \<^verbatim>\<open>findSection\<close>:
      \<^verbatim>\<open>/^(skills|technical skills|...|certifications|awards)\b/i\<close>\<close>
  "boundary_re = seqs [Bol, words_ci header_keywords, WordB]"

definition spaces_re :: regex where
  \<comment> \<open>\<^verbatim>\<open>/\s+/g\<close>\<close>
  "spaces_re = Plus (Cls is_space)"

definition word_start_re :: regex where
  \<comment> \<open>\<^verbatim>\<open>/\b\w/g\<close>\<close>
  "word_start_re = Seq WordB (Cls is_word)"

section \<open>The parser\<close>

subsection \<open>\<^verbatim>\<open>findSection\<close> and \<^verbatim>\<open>cap\<close>\<close>

function find_end :: "jsstring list \<Rightarrow> nat \<Rightarrow> nat" where
  \<comment> \<open>the loop \<^verbatim>\<open>for (let i = start + 1; i < lines.length; i++)\<close> of \<^verbatim>\<open>findSection\<close>,
      entered at \<open>i\<close>: the value of \<^verbatim>\<open>end\<close> after it\<close>
  "find_end lines i =
     (if i < length lines
      then (if test boundary_re (lines ! i) then i else find_end lines (i + 1))
      else length lines)"
  by pat_completeness auto
termination
  by (relation "measure (\<lambda>(lines, i). length lines - i)") auto

definition section_range :: "jsstring list \<Rightarrow> regex \<Rightarrow> (nat \<times> nat) option" where
  \<comment> \<open>the values of \<^verbatim>\<open>start\<close> and \<^verbatim>\<open>end\<close> in \<^verbatim>\<open>findSection\<close>, \<open>None\<close> when
      \<^verbatim>\<open>indexes\<close> is empty\<close>
  "section_range lines headerRegex =
     (let indexes = filter (\<lambda>idx. test headerRegex (lines ! idx)) [0..<length lines]
      in case indexes of
           [] \<Rightarrow> None
         | start # _ \<Rightarrow> Some (start, find_end lines (start + 1)))"

definition findSection :: "jsstring \<Rightarrow> regex \<Rightarrow> jsstring" where
  "findSection text headerRegex =
     (let lines = split_str 10 text
      in case section_range lines headerRegex of
           None \<Rightarrow> []
         | Some (start, stop) \<Rightarrow>
             trim (join_str (js ''\<newline>'') (take (stop - start) (drop start lines))))"

definition cap :: "jsstring \<Rightarrow> jsstring" where
  "cap s = replace_all word_start_re (map to_upper)
             (trim (replace_all spaces_re (\<lambda>m. js '' '') s))"

definition section_lines :: "jsstring \<Rightarrow> jsstring list" where
  \<comment> \<open>\<^verbatim>\<open>section.split('\n').map((l) => l.trim()).filter(Boolean)\<close>\<close>
  "section_lines s = nonempty (map trim (split_str 10 s))"

definition or_new :: "'a \<Rightarrow> 'a option \<Rightarrow> 'a option" where
  \<comment> \<open>\<^verbatim>\<open>if (!current) current = {...}\<close>: the value of \<^verbatim>\<open>current\<close> after it\<close>
  "or_new fresh current = (case current of None \<Rightarrow> Some fresh | Some c \<Rightarrow> Some c)"

definition push_current :: "'a list \<Rightarrow> 'a option \<Rightarrow> 'a list" where
  \<comment> \<open>\<^verbatim>\<open>if (current) entries.push(current)\<close>: the value of \<^verbatim>\<open>entries\<close> after it\<close>
  "push_current entries current = (case current of None \<Rightarrow> entries | Some c \<Rightarrow> entries @ [c])"

subsection \<open>\<^verbatim>\<open>extractSkills\<close>\<close>

definition skill_items :: "jsstring \<Rightarrow> jsstring list" where
  \<comment> \<open>the callback of \<^verbatim>\<open>filtered.flatMap\<close>\<close>
  "skill_items r =
     (let afterColon = (if str_includes r (js '':'')
                        then join_str (js '':'') (drop 1 (split_str 58 r)) else r)
      in nonempty (map trim (split_re item_split_re afterColon)))"

definition extractSkills :: "jsstring \<Rightarrow> jsstring list" where
  "extractSkills text =
     (let section = findSection text skills_hdr_re
      in if section = [] then []
         else (let raw = nonempty (map trim (split_re skills_split_re section));
                   filtered = filter (\<lambda>r. \<not> test skills_bare_re r) raw;
                   expanded = concat (map skill_items filtered)
               in dedup (map cap expanded)))"

subsection \<open>\<^verbatim>\<open>extractEducation\<close>\<close>

definition new_edu :: EducationEntry where
  "new_edu = \<lparr>degree = [], institution = [], period = [], details = []\<rparr>"

definition edu_line ::
  "EducationEntry list \<times> EducationEntry option \<Rightarrow> jsstring
     \<Rightarrow> js_error + (EducationEntry list \<times> EducationEntry option)" where
  \<comment> \<open>the callback of \<^verbatim>\<open>lines.forEach\<close>, on the variables \<^verbatim>\<open>entries\<close> and \<^verbatim>\<open>current\<close>\<close>
  "edu_line st l =
     (case st of (entries, current) \<Rightarrow>
        if test edu_skip_re l then Inr (entries, current)
        else if test degree_re l then
          Inr (push_current entries current, Some (new_edu\<lparr>degree := l\<rparr>))
        else if test institution_re l then
          and_then (deref (or_new new_edu current)) (\<lambda>c.
            Inr (entries, Some (if institution c \<noteq> []
                                then c\<lparr>institution := institution c @ js '' '' @ l\<rparr>
                                else c\<lparr>institution := l\<rparr>)))
        else if test (year_range_re 5) l then
          and_then (deref (or_new new_edu current)) (\<lambda>c.
            Inr (entries, Some (c\<lparr>period := l\<rparr>)))
        else
          and_then (deref (or_new new_edu current)) (\<lambda>c.
            Inr (entries, Some (c\<lparr>details := (if details c \<noteq> [] then details c @ js '' '' else []) @ l\<rparr>))))"

definition edu_final :: "EducationEntry \<Rightarrow> EducationEntry" where
  \<comment> \<open>the callback of the final \<^verbatim>\<open>entries.map\<close>\<close>
  "edu_final e = \<lparr>degree = (if degree e \<noteq> [] then degree e else details e),
                  institution = institution e, period = period e, details = details e\<rparr>"

definition extractEducation :: "jsstring \<Rightarrow> js_error + EducationEntry list" where
  "extractEducation text =
     (let section = findSection text edu_hdr_re
      in if section = [] then Inr []
         else and_then (forEach edu_line ([], None) (section_lines section)) (\<lambda>st.
                case st of (entries, current) \<Rightarrow>
                  Inr (map edu_final (push_current entries current))))"

subsection \<open>\<^verbatim>\<open>extractExperience\<close>\<close>

definition new_exp :: ExperienceEntry where
  "new_exp = \<lparr>company = [], role = [], exp_period = [], bullets = []\<rparr>"

definition role_entry :: "jsstring \<Rightarrow> ExperienceEntry" where
  \<comment> \<open>the entry a line that starts a new role opens\<close>
  "role_entry l =
     (let parts = nonempty (map trim (split_re role_split_re l))
      in if 2 \<le> length parts then
           (case find_index (test role_part_re) parts of
              Some roleIdx \<Rightarrow>
                new_exp\<lparr>role := parts ! roleIdx,
                        company := join_str (js '' - '') (take roleIdx parts @ drop (Suc roleIdx) parts)\<rparr>
            | None \<Rightarrow>
                new_exp\<lparr>role := parts ! 0, company := join_str (js '' - '') (drop 1 parts)\<rparr>)
         else new_exp\<lparr>role := l\<rparr>)"

definition exp_line ::
  "ExperienceEntry list \<times> ExperienceEntry option \<Rightarrow> jsstring
     \<Rightarrow> js_error + (ExperienceEntry list \<times> ExperienceEntry option)" where
  \<comment> \<open>the callback of \<^verbatim>\<open>lines.forEach\<close>, on the variables \<^verbatim>\<open>entries\<close> and \<^verbatim>\<open>current\<close>\<close>
  "exp_line st l =
     (case st of (entries, current) \<Rightarrow>
        if test exp_bare_re l then Inr (entries, current)
        else if (test dash_re l \<and> test connector_re l) \<or> test role_re l then
          Inr (push_current entries current, Some (role_entry l))
        else if test (year_range_re 12) l then
          and_then (deref (or_new new_exp current)) (\<lambda>c.
            Inr (entries, Some (c\<lparr>exp_period := l\<rparr>)))
        else if test marker_re l \<or> length l < 140 then
          and_then (deref (or_new new_exp current)) (\<lambda>c.
            Inr (entries, Some (c\<lparr>bullets := bullets c @ [trim (replace_first marker_strip_re [] l)]\<rparr>)))
        else
          and_then (deref (or_new new_exp current)) (\<lambda>c.
            Inr (entries, Some (c\<lparr>bullets := bullets c @ [l]\<rparr>))))"

definition extractExperience :: "jsstring \<Rightarrow> js_error + ExperienceEntry list" where
  "extractExperience text =
     (let section = findSection text exp_hdr_re
      in if section = [] then Inr []
         else and_then (forEach exp_line ([], None) (section_lines section)) (\<lambda>st.
                case st of (entries, current) \<Rightarrow> Inr (push_current entries current)))"

subsection \<open>\<^verbatim>\<open>extractProjects\<close>\<close>

definition new_proj :: ProjectEntry where
  "new_proj = \<lparr>proj_name = [], description = [], tech = [], link = []\<rparr>"

definition proj_line ::
  "ProjectEntry list \<times> ProjectEntry option \<Rightarrow> jsstring
     \<Rightarrow> js_error + (ProjectEntry list \<times> ProjectEntry option)" where
  \<comment> \<open>the callback of \<^verbatim>\<open>lines.forEach\<close>, on the variables \<^verbatim>\<open>entries\<close> and \<^verbatim>\<open>current\<close>\<close>
  "proj_line st l =
     (case st of (entries, current) \<Rightarrow>
        if test proj_bare_re l then Inr (entries, current)
        else if test marker_re l \<or> test proj_title_re l then
          Inr (push_current entries current,
               Some (new_proj\<lparr>proj_name := trim (replace_first marker_strip_re [] l)\<rparr>))
        else if test tech_re l then
          and_then (deref (or_new new_proj current)) (\<lambda>c.
            (let parts = nonempty (map trim (split_re item_split_re
                           (join_str (js '':'') (drop 1 (split_re tech_split_re l)))))
             in Inr (entries, Some (c\<lparr>tech := dedup (tech c @ map cap parts)\<rparr>))))
        else if test link_re l then
          and_then (deref (or_new new_proj current)) (\<lambda>c.
            Inr (entries, Some (c\<lparr>link := (case match_first http_re l of None \<Rightarrow> l | Some m \<Rightarrow> m)\<rparr>)))
        else
          and_then (deref (or_new new_proj current)) (\<lambda>c.
            Inr (entries, Some (c\<lparr>description := (if description c \<noteq> []
                                                    then description c @ js '' '' @ l else l)\<rparr>))))"

definition extractProjects :: "jsstring \<Rightarrow> js_error + ProjectEntry list" where
  "extractProjects text =
     (let section = findSection text proj_hdr_re
      in if section = [] then Inr []
         else and_then (forEach proj_line ([], None) (section_lines section)) (\<lambda>st.
                case st of (entries, current) \<Rightarrow> Inr (push_current entries current)))"

subsection \<open>\<^verbatim>\<open>extractSummary\<close> and \<^verbatim>\<open>guessNameFromText\<close>\<close>

definition extractSummary :: "jsstring \<Rightarrow> jsstring \<Rightarrow> jsstring" where
  "extractSummary text nm =
     (let section = findSection text sum_hdr_re
      in if section \<noteq> [] then
           (let withoutHeader = trim (replace_first sum_strip_re [] section)
            in join_str (js '' '') (take 3 (split_str 10 withoutHeader)))
         else
           (let lines = section_lines text;
                startIdx = (case find_index (\<lambda>l. str_includes l nm) lines of
                              None \<Rightarrow> 0 | Some i \<Rightarrow> i)
            in join_str (js '' '')
                 (take 2 (filter (test sentence_end_re) (take 4 (drop (startIdx + 1) lines))))))"

fun guess_loop :: "jsstring list \<Rightarrow> nat list \<Rightarrow> js_error + jsstring" where
  \<comment> \<open>the loop of \<^verbatim>\<open>guessNameFromText\<close> over the indices it still has to visit\<close>
  "guess_loop lines [] = Inr []"
| "guess_loop lines (i # idxs) =
     (if \<not> truthy (nth_opt lines i) then guess_loop lines idxs
      else (case deref (nth_opt lines i) of
              Inl e \<Rightarrow> Inl e
            | Inr l \<Rightarrow>
                if test name_skip_re l then guess_loop lines idxs
                else if length (split_str 32 l) \<le> 6 \<and> test name_chars_re l
                then Inr (trim (replace_all spaces2_re (\<lambda>m. js '' '') l))
                else guess_loop lines idxs))"

definition guessNameFromText :: "jsstring list \<Rightarrow> js_error + jsstring" where
  "guessNameFromText lines = guess_loop lines [0..<min 5 (length lines)]"

subsection \<open>\<^verbatim>\<open>parseResumeText\<close>\<close>

definition normalize :: "jsstring \<Rightarrow> jsstring list" where
  \<comment> \<open>\<^verbatim>\<open>text.split('\n').map((l) => l.trim()).filter(Boolean)\<close>\<close>
  "normalize text = nonempty (map trim (split_str 10 text))"

definition first_or_empty :: "jsstring list \<Rightarrow> jsstring" where
  \<comment> \<open>\<^verbatim>\<open>(lines[0] || '')\<close>\<close>
  "first_or_empty lines = (case nth_opt lines 0 of None \<Rightarrow> [] | Some l \<Rightarrow> l)"

definition all_links :: "jsstring \<Rightarrow> jsstring list" where
  "all_links blob = dedup (match_all http_re blob @ match_all www_re blob
                           @ match_all github_re blob @ match_all linkedin_re blob
                           @ match_all portfolio_re blob)"

definition match_or_empty :: "jsstring option \<Rightarrow> js_error + jsstring" where
  \<comment> \<open>\<^verbatim>\<open>m ? m[0] : ''\<close> for a match result \<^verbatim>\<open>m\<close>\<close>
  "match_or_empty m = (if m \<noteq> None then deref m else Inr [])"

definition pick_title :: "jsstring list \<Rightarrow> js_error + jsstring" where
  \<comment> \<open>the title heuristic on \<^verbatim>\<open>lines[1]\<close>\<close>
  "pick_title lines =
     (if truthy (nth_opt lines 1) then
        and_then (deref (nth_opt lines 1)) (\<lambda>l.
          Inr (if length l < 80 \<and> match_first title_re l = None then l else []))
      else Inr [])"

definition parseResumeText :: "jsstring \<Rightarrow> js_error + ResumeRecord" where
  \<comment> \<open>When the condition of \<^verbatim>\<open>probableName\<close> holds, \<^verbatim>\<open>lines[0]\<close> has more than two
      code units, so it is the string \<^verbatim>\<open>lines[0] || ''\<close>.\<close>
  "parseResumeText text =
     (let lines = normalize text;
          blob = join_str (js ''\<newline>'') lines
      in and_then (if 2 < length (first_or_empty lines)
                      \<and> length (split_str 32 (first_or_empty lines)) \<le> 6
                   then Inr (first_or_empty lines) else guessNameFromText lines) (\<lambda>probableName.
         and_then (extractEducation blob) (\<lambda>edu.
         and_then (extractExperience blob) (\<lambda>expe.
         and_then (extractProjects blob) (\<lambda>proj.
         and_then (pick_title lines) (\<lambda>ttl.
         and_then (match_or_empty (match_first email_re blob)) (\<lambda>em.
         and_then (match_or_empty (match_first phone_re blob)) (\<lambda>ph.
         and_then (match_or_empty (match_first location_re blob)) (\<lambda>loc.
           Inr \<lparr>name = probableName, title = ttl,
                contact = \<lparr>email = em, phone = ph, location = loc, links = all_links blob\<rparr>,
                summary = extractSummary blob probableName,
                skills = extractSkills blob,
                education = edu, experience = expe, projects = proj\<rparr>)))))))))"

section \<open>Notions used in the statements\<close>

text \<open>
  What the statements below say about a line or an entry, defined on their own so
  that a statement does not repeat a regular expression of the source.
\<close>

definition starts_with_ci :: "string \<Rightarrow> jsstring \<Rightarrow> bool" where
  \<comment> \<open>the line starts with the word, letters compared without regard to case\<close>
  "starts_with_ci k l = (map to_upper (take (length k) l) = map to_upper (js k))"

definition contains_ci :: "string \<Rightarrow> jsstring \<Rightarrow> bool" where
  \<comment> \<open>the word occurs somewhere in the line, letters compared without regard to case\<close>
  "contains_ci k l = list_ex (\<lambda>i. starts_with_ci k (drop i l)) [0..<Suc (length l)]"

definition ends_word :: "nat \<Rightarrow> jsstring \<Rightarrow> bool" where
  \<comment> \<open>after its first \<open>n\<close> code units the line ends or goes on with a code unit that
      is no letter, digit or underscore\<close>
  "ends_word n l = (case drop n l of [] \<Rightarrow> True | c # cs \<Rightarrow> \<not> is_word c)"

definition header_line :: "jsstring \<Rightarrow> bool" where
  \<comment> \<open>the line starts with one of the header keywords, and the keyword ends there\<close>
  "header_line l = list_ex (\<lambda>k. starts_with_ci k l \<and> ends_word (length k) l) header_keywords"

definition starts_with_keyword :: "jsstring \<Rightarrow> bool" where
  \<comment> \<open>the line starts with one of the header keywords\<close>
  "starts_with_keyword l = list_ex (\<lambda>k. starts_with_ci k l) header_keywords"

definition bullet_line :: "jsstring \<Rightarrow> bool" where
  \<comment> \<open>the lines of an experience section that \<^verbatim>\<open>extractExperience\<close> turns into
      bullets: neither the bare header, nor the start of a role, nor a period\<close>
  "bullet_line l = (\<not> test exp_bare_re l
                    \<and> \<not> ((test dash_re l \<and> test connector_re l) \<or> test role_re l)
                    \<and> \<not> test (year_range_re 12) l)"

definition bullet_text :: "jsstring \<Rightarrow> jsstring" where
  \<comment> \<open>the bullet such a line becomes: a leading hyphen or bullet sign and one space
      after it are removed\<close>
  "bullet_text l = (if test marker_re l \<or> length l < 140
                    then trim (replace_first marker_strip_re [] l) else l)"

definition bullets_from :: "jsstring list \<Rightarrow> ExperienceEntry \<Rightarrow> bool" where
  \<comment> \<open>the bullets of the entry are the bullets of some of the given lines, in the
      order of the lines\<close>
  "bullets_from seen e = (\<exists>ls. subseq ls seen \<and> bullets e = map bullet_text ls)"

definition built_from :: "jsstring list \<Rightarrow> jsstring \<Rightarrow> bool" where
  \<comment> \<open>the text is some of the given lines, in their order, joined by single spaces\<close>
  "built_from seen f = (\<exists>ls. subseq ls seen \<and> f = join_str (js '' '') ls)"

definition edu_from :: "jsstring list \<Rightarrow> EducationEntry \<Rightarrow> bool" where
  \<comment> \<open>every field of the entry is built from the given lines\<close>
  "edu_from seen e = (built_from seen (degree e) \<and> built_from seen (institution e)
                      \<and> built_from seen (period e) \<and> built_from seen (details e))"

definition link_of :: "jsstring \<Rightarrow> jsstring" where
  \<comment> \<open>the link a line of a projects section gives: its first URL, or the whole line\<close>
  "link_of l = (case match_first http_re l of None \<Rightarrow> l | Some m \<Rightarrow> m)"

definition tech_items :: "jsstring \<Rightarrow> jsstring list" where
  \<comment> \<open>the tech names a line of a projects section gives\<close>
  "tech_items l = map cap (nonempty (map trim (split_re item_split_re
                    (join_str (js '':'') (drop 1 (split_re tech_split_re l))))))"

definition skill_tokens :: "jsstring \<Rightarrow> jsstring list" where
  \<comment> \<open>the tokens of the text of a skills section: \<^verbatim>\<open>raw\<close> in \<^verbatim>\<open>extractSkills\<close>\<close>
  "skill_tokens section = nonempty (map trim (split_re skills_split_re section))"

definition skill_from :: "jsstring \<Rightarrow> jsstring \<Rightarrow> bool" where
  \<comment> \<open>the skill is the capitalised form of an item of a token of the text, the token
      not being a bare header\<close>
  "skill_from section s =
     list_ex (\<lambda>r. \<not> test skills_bare_re r \<and> s \<in> set (map cap (skill_items r)))
       (skill_tokens section)"

definition role_from :: "jsstring list \<Rightarrow> ExperienceEntry \<Rightarrow> bool" where
  \<comment> \<open>the role and the company of the entry are those that one of the given lines
      gives as the start of a role, or both are empty\<close>
  "role_from seen e =
     ((role e = [] \<and> company e = [])
      \<or> list_ex (\<lambda>l. role e = role (role_entry l) \<and> company e = company (role_entry l)) seen)"

definition exp_from :: "jsstring list \<Rightarrow> ExperienceEntry \<Rightarrow> bool" where
  \<comment> \<open>the bullets of the entry are made of the given lines, its period is one of
      them or empty, and its role and company come from one of them\<close>
  "exp_from seen e =
     (bullets_from seen e \<and> (exp_period e = [] \<or> exp_period e \<in> set seen) \<and> role_from seen e)"

definition proj_from :: "jsstring list \<Rightarrow> ProjectEntry \<Rightarrow> bool" where
  \<comment> \<open>the description of the entry is built from the given lines, its name and its
      link are those one of the lines gives, or empty, and each of its tech names is
      one that one of the lines gives\<close>
  "proj_from seen p =
     (built_from seen (description p)
      \<and> (proj_name p = []
          \<or> list_ex (\<lambda>l. proj_name p = trim (replace_first marker_strip_re [] l)) seen)
      \<and> (link p = [] \<or> list_ex (\<lambda>l. link p = link_of l) seen)
      \<and> list_all (\<lambda>t. list_ex (\<lambda>l. t \<in> set (tech_items l)) seen) (tech p))"

definition summary_source :: "jsstring \<Rightarrow> jsstring list" where
  \<comment> \<open>the lines \<^verbatim>\<open>extractSummary\<close> reads: those of the summary section after its
      header word, or, when there is no summary section, all lines of the text\<close>
  "summary_source text =
     (if findSection text sum_hdr_re \<noteq> []
      then split_str 10 (trim (replace_first sum_strip_re [] (findSection text sum_hdr_re)))
      else section_lines text)"

section \<open>Worked inputs\<close>

text \<open>The texts on which the parser is evaluated below.\<close>

definition scenario_1 :: jsstring where
  "scenario_1 = js ''Jane Doe\<newline>Software Engineer\<newline>jane@x.com\<newline>Skills\<newline>Go, Rust, Python\<newline>Education\<newline>B.Tech Computer Science\<newline>XYZ University\<newline>2018 - 2022''"

definition languages_input :: jsstring where
  "languages_input = js ''Skills\<newline>Languages: JavaScript, TypeScript''"

definition tools_input :: jsstring where
  "tools_input = js ''Skills\<newline>Tools: unit   testing, go, Go, unit testing''"

definition prefix_input :: jsstring where
  "prefix_input = js ''Skills\<newline>Experienced in Go\<newline>Education''"

definition overlap_input :: jsstring where
  "overlap_input = js ''Experience\<newline>Loves education''"

definition sections_input :: jsstring where
  "sections_input = js ''Skills\<newline>Go, Rust\<newline>Experience\<newline>Engineer at Acme\<newline>2019 to 2021\<newline>- built x\<newline>Projects\<newline>Tracker\<newline>Tech: Go, SQL\<newline>https://a.io\<newline>a small app\<newline>Education\<newline>B.Sc Physics\<newline>XYZ University''"

definition duplicates_input :: jsstring where
  "duplicates_input = js ''Ann Lee\<newline>Skills\<newline>Go, Rust, Go\<newline>Projects\<newline>Tracker\<newline>Tech: Go, SQL, Go\<newline>https://a.io https://a.io''"

definition roles_input :: jsstring where
  "roles_input = js ''Experience\<newline>Engineer at Acme\<newline>- built x\<newline>shipped y\<newline>2019 to 2021\<newline>-z''"

section \<open>No exception\<close>

lemma deref_or_new: "deref (or_new f c) = Inr (case c of None \<Rightarrow> f | Some x \<Rightarrow> x)"
  by (simp add: deref_def or_new_def split: option.split)

lemma and_then_Inr: "and_then (Inr x) f = f x"
  by (simp add: and_then_def)

lemma forEach_total:
  assumes "\<And>s x. \<exists>s'. f s x = Inr s'"
  shows "\<exists>s'. forEach f s xs = Inr s'"
proof (induction xs arbitrary: s)
  case Nil
  show ?case by simp
next
  case (Cons x xs)
  obtain s1 where "f s x = Inr s1" using assms by blast
  with Cons.IH [of s1] show ?case by simp
qed

lemma edu_line_total: "\<exists>st'. edu_line st l = Inr st'"
  by (cases st) (simp add: edu_line_def deref_or_new and_then_Inr)

lemma exp_line_total: "\<exists>st'. exp_line st l = Inr st'"
  by (cases st) (simp add: exp_line_def deref_or_new and_then_Inr)

lemma proj_line_total: "\<exists>st'. proj_line st l = Inr st'"
  by (cases st) (simp add: proj_line_def deref_or_new and_then_Inr Let_def)

lemma extractEducation_total: "\<exists>es. extractEducation text = Inr es"
proof -
  obtain st where "forEach edu_line ([], None) (section_lines (findSection text edu_hdr_re)) = Inr st"
    using forEach_total [of edu_line] edu_line_total by blast
  then show ?thesis
    by (cases st) (simp add: extractEducation_def Let_def and_then_Inr)
qed

lemma extractExperience_total: "\<exists>es. extractExperience text = Inr es"
proof -
  obtain st where "forEach exp_line ([], None) (section_lines (findSection text exp_hdr_re)) = Inr st"
    using forEach_total [of exp_line] exp_line_total by blast
  then show ?thesis
    by (cases st) (simp add: extractExperience_def Let_def and_then_Inr)
qed

lemma extractProjects_total: "\<exists>es. extractProjects text = Inr es"
proof -
  obtain st where "forEach proj_line ([], None) (section_lines (findSection text proj_hdr_re)) = Inr st"
    using forEach_total [of proj_line] proj_line_total by blast
  then show ?thesis
    by (cases st) (simp add: extractProjects_def Let_def and_then_Inr)
qed

lemma guess_loop_total: "\<exists>n. guess_loop lines idxs = Inr n"
proof (induction idxs)
  case Nil
  show ?case by simp
next
  case (Cons i idxs)
  show ?case
  proof (cases "nth_opt lines i")
    case None
    with Cons show ?thesis by (simp add: truthy_def)
  next
    case (Some l)
    with Cons show ?thesis by (simp add: truthy_def deref_def)
  qed
qed

lemma pick_title_total: "\<exists>t. pick_title lines = Inr t"
  by (cases "nth_opt lines 1") (simp_all add: pick_title_def truthy_def deref_def and_then_Inr)

lemma match_or_empty_total: "\<exists>t. match_or_empty m = Inr t"
  by (cases m) (simp_all add: match_or_empty_def deref_def)

lemma parseResumeText_total: "\<exists>r. parseResumeText text = Inr r"
proof -
  define lns where "lns = normalize text"
  define blob where "blob = join_str (js ''\<newline>'') lns"
  obtain nm where nm:
    "(if 2 < length (first_or_empty lns) \<and> length (split_str 32 (first_or_empty lns)) \<le> 6
      then Inr (first_or_empty lns) else guessNameFromText lns) = Inr nm"
  proof -
    obtain g where "guessNameFromText lns = Inr g"
      unfolding guessNameFromText_def using guess_loop_total by blast
    then show ?thesis using that by (cases "2 < length (first_or_empty lns) \<and> length (split_str 32 (first_or_empty lns)) \<le> 6") simp_all
  qed
  obtain edu where edu: "extractEducation blob = Inr edu"
    using extractEducation_total by blast
  obtain expe where expe: "extractExperience blob = Inr expe"
    using extractExperience_total by blast
  obtain proj where proj: "extractProjects blob = Inr proj"
    using extractProjects_total by blast
  obtain ttl where ttl: "pick_title lns = Inr ttl"
    using pick_title_total by blast
  obtain em where em: "match_or_empty (match_first email_re blob) = Inr em"
    using match_or_empty_total by blast
  obtain ph where ph: "match_or_empty (match_first phone_re blob) = Inr ph"
    using match_or_empty_total by blast
  obtain loc where loc: "match_or_empty (match_first location_re blob) = Inr loc"
    using match_or_empty_total by blast
  show ?thesis
    unfolding parseResumeText_def Let_def lns_def [symmetric] blob_def [symmetric]
    by (simp only: nm edu expe proj ttl em ph loc and_then_Inr) blast
qed

lemma empty_text_record:
  "parseResumeText (js '''') =
     Inr \<lparr>name = [], title = [],
          contact = \<lparr>email = [], phone = [], location = [], links = []\<rparr>,
          summary = [], skills = [], education = [], experience = [], projects = []\<rparr>"
  by code_simp

text \<open>
  C1. For every input string the parser returns a record: no dereference of \<^verbatim>\<open>null\<close>
  or \<^verbatim>\<open>undefined\<close> is reached, so the result is never the TypeError. On the empty
  string every field of the record has its empty default.
\<close>

theorem parseResumeText_returns_record:
  "(\<exists>r. parseResumeText s = Inr r)
   \<and> parseResumeText (js '''') =
       Inr \<lparr>name = [], title = [],
            contact = \<lparr>email = [], phone = [], location = [], links = []\<rparr>,
            summary = [], skills = [], education = [], experience = [], projects = []\<rparr>"
  using parseResumeText_total [of s] empty_text_record by blast

section \<open>Facts about the regular expressions\<close>

text \<open>
  The matcher is total: the count that \<open>star_iter\<close> takes is the length of the text
  still to read, every iteration it keeps reads at least one code unit, and a larger
  count gives the same matches. Every match ends at a suffix of the text it started
  at, so a search splits the text into the part skipped, the part matched and the rest.
\<close>

lemma star_iter_fuel:
  "length (snd c) \<le> n \<Longrightarrow> star_iter m n c = star_iter m (length (snd c)) c"
proof (induction n arbitrary: c rule: less_induct)
  case (less n)
  show ?case
  proof (cases n)
    case 0
    with less.prems show ?thesis by simp
  next
    case (Suc k)
    show ?thesis
    proof (cases "length (snd c)")
      case 0
      then have "filter (\<lambda>c'. length (snd c') < length (snd c)) (m c) = []"
        by simp
      with 0 Suc show ?thesis by simp
    next
      case (Suc j)
      with less.prems \<open>n = Suc k\<close> have jk: "j \<le> k" by simp
      have "map (star_iter m k) (filter (\<lambda>c'. length (snd c') < length (snd c)) (m c))
            = map (star_iter m j) (filter (\<lambda>c'. length (snd c') < length (snd c)) (m c))"
      proof (rule map_cong [OF refl])
        fix c' assume "c' \<in> set (filter (\<lambda>c'. length (snd c') < length (snd c)) (m c))"
        then have len: "length (snd c') \<le> j" using Suc by simp
        have "star_iter m k c' = star_iter m (length (snd c')) c'"
          using less.IH [of k c'] len jk \<open>n = Suc k\<close> by simp
        moreover have "star_iter m j c' = star_iter m (length (snd c')) c'"
          using less.IH [of j c'] len jk \<open>n = Suc k\<close> by simp
        ultimately show "star_iter m k c' = star_iter m j c'" by simp
      qed
      then have "star_iter m (Suc k) c = star_iter m (Suc j) c"
        by (simp only: star_iter.simps)
      with Suc \<open>n = Suc k\<close> show ?thesis by simp
    qed
  qed
qed

lemma star_iter_suffix:
  assumes "\<And>c c'. c' \<in> set (m c) \<Longrightarrow> suffix (snd c') (snd c)"
  shows "c' \<in> set (star_iter m n c) \<Longrightarrow> suffix (snd c') (snd c)"
proof (induction n arbitrary: c)
  case 0
  then show ?case by simp
next
  case (Suc n)
  from Suc.prems consider "c' = c"
    | c1 where "c1 \<in> set (m c)" "c' \<in> set (star_iter m n c1)"
    by auto
  then show ?case
  proof cases
    case 1
    then show ?thesis by simp
  next
    case 2
    from Suc.IH [OF 2(2)] assms [OF 2(1)] show ?thesis
      by (rule suffix_order.trans)
  qed
qed

lemma rmatch_suffix: "c' \<in> set (rmatch r c) \<Longrightarrow> suffix (snd c') (snd c)"
proof (induction r arbitrary: c c')
  case (Cls p)
  show ?case
  proof (cases "snd c")
    case Nil
    with Cls show ?thesis by simp
  next
    case (Cons x xs)
    with Cls have "snd c' = xs" by (simp split: if_splits)
    with Cons show ?thesis by (simp add: suffix_Cons)
  qed
next
  case Eps
  then show ?case by simp
next
  case (Seq a b)
  from Seq.prems obtain c1 where "c1 \<in> set (rmatch a c)" "c' \<in> set (rmatch b c1)"
    by auto
  with Seq.IH show ?case by (blast intro: suffix_order.trans)
next
  case (Alt a b)
  from Alt.prems have "c' \<in> set (rmatch a c) \<or> c' \<in> set (rmatch b c)" by simp
  with Alt.IH show ?case by blast
next
  case (Star r)
  from Star.prems have "c' \<in> set (star_iter (rmatch r) (length (snd c)) c)" by simp
  then show ?case using Star.IH by (rule star_iter_suffix [rotated])
next
  case Bol
  then show ?case by (simp split: if_splits)
next
  case Eol
  then show ?case by (simp split: if_splits)
next
  case WordB
  then show ?case by (simp split: if_splits)
qed

lemma search_parts: "search r p s = Some (pre, m, c) \<Longrightarrow> s = pre @ m @ snd c"
proof (induction s arbitrary: p pre)
  case Nil
  then obtain c0 cs where "rmatch r (p, []) = c0 # cs" "c = c0" "pre = []" "m = []"
    by (auto split: list.splits)
  then have "suffix (snd c) []" using rmatch_suffix [of c r "(p, [])"] by simp
  with \<open>pre = []\<close> \<open>m = []\<close> show ?case by simp
next
  case (Cons x xs)
  show ?case
  proof (cases "rmatch r (p, x # xs)")
    case Nil
    with Cons.prems obtain pre' where "search r (Some x) xs = Some (pre', m, c)" "pre = x # pre'"
      by (auto split: option.splits)
    with Cons.IH show ?thesis by auto
  next
    case (Cons c0 cs)
    with Cons.prems have c: "c = c0" and pre: "pre = []"
      and m: "m = take (Suc (length xs) - length (snd c0)) (x # xs)" by auto
    have "suffix (snd c0) (x # xs)" using rmatch_suffix [of c0 r "(p, x # xs)"] Cons by simp
    then obtain ys where ys: "x # xs = ys @ snd c0" by (auto simp: suffix_def)
    then have "length (x # xs) = length ys + length (snd c0)" by (metis length_append)
    then have "take (Suc (length xs) - length (snd c0)) (x # xs) = ys"
      using ys by (metis add_diff_cancel_right' append_eq_conv_conj length_Cons)
    with ys c pre m show ?thesis by simp
  qed
qed

lemma length_js: "length (js k) = length k"
  by (simp add: js_def)

lemma js_Nil_iff: "(js k = []) = (k = [])"
  by (simp add: js_def)

lemma concat_map_rmatch_Eps: "concat (map (rmatch Eps) xs) = xs"
  by (induction xs) simp_all

lemma rmatch_seqs_Cons: "rmatch (seqs (r # rs)) c = concat (map (rmatch (seqs rs)) (rmatch r c))"
  by (cases rs) (simp_all add: concat_map_rmatch_Eps)

lemma rmatch_alts_Cons: "rmatch (alts (r # rs)) c = rmatch r c @ rmatch (alts rs) c"
  by (cases rs) (simp_all split: list.split)

lemma rmatch_chr_ci:
  "rmatch (chr_ci a) (p, s) =
     (case s of [] \<Rightarrow> [] | x # xs \<Rightarrow> if to_upper x = to_upper a then [(Some x, xs)] else [])"
  by (simp add: chr_ci_def)

lemma rmatch_word:
  "rmatch (seqs (map chr_ci k)) (p, s) =
     (if map to_upper (take (length k) s) = map to_upper k
      then [(if k = [] then p else Some (s ! (length k - 1)), drop (length k) s)] else [])"
proof (induction k arbitrary: p s)
  case Nil
  show ?case by simp
next
  case (Cons a k)
  show ?case
  proof (cases s)
    case Nil
    then show ?thesis by (simp add: rmatch_seqs_Cons rmatch_chr_ci)
  next
    case (Cons x xs)
    then show ?thesis
      by (simp add: rmatch_seqs_Cons rmatch_chr_ci Cons.IH nth_Cons')
  qed
qed

lemma rmatch_lit_ci:
  "rmatch (lit_ci k) (p, s) =
     (if starts_with_ci k s
      then [(if k = [] then p else Some (s ! (length k - 1)), drop (length k) s)] else [])"
  using rmatch_word [of "js k" p s] by (simp add: lit_ci_def starts_with_ci_def length_js js_Nil_iff)

lemma is_word_to_upper: "is_word (to_upper c) = is_word c"
  by (auto simp: is_word_def to_upper_def is_alpha_def is_upper_def is_lower_def is_digit_def in_range_def)

lemma rmatch_alts_map:
  "rmatch (alts (map f ws)) c = concat (map (\<lambda>w. rmatch (f w) c) ws)"
proof (induction ws)
  case Nil
  show ?case by (simp split: list.split)
next
  case (Cons w ws)
  then show ?case by (simp add: rmatch_alts_Cons del: alts.simps)
qed

lemma rmatch_words_ci:
  "rmatch (words_ci ws) c = concat (map (\<lambda>w. rmatch (lit_ci w) c) ws)"
  by (simp add: words_ci_def rmatch_alts_map)

lemma search_Bol_Some: "search (Seq Bol r) (Some a) s = None"
  by (induction s arbitrary: a) simp_all

lemma test_Bol: "test (Seq Bol r) s = (rmatch r (None, s) \<noteq> [])"
  by (cases s) (auto simp: test_def search_Bol_Some split: list.splits)

lemma starts_with_ci_last:
  assumes "starts_with_ci w l" "w \<noteq> []"
  shows "is_word (l ! (length w - 1)) = is_word (last (js w))"
proof -
  have eq: "map to_upper (take (length w) l) = map to_upper (js w)"
    using assms(1) by (simp add: starts_with_ci_def)
  then have "length (take (length w) l) = length w"
    using length_js [of w] by (metis length_map)
  then have len: "length w \<le> length l" by simp
  have pos: "length w - 1 < length w" using assms(2) by simp
  have "map to_upper (take (length w) l) ! (length w - 1) = map to_upper (js w) ! (length w - 1)"
    using eq by simp
  then have "to_upper (l ! (length w - 1)) = to_upper (js w ! (length w - 1))"
    using pos len by (simp add: length_js)
  moreover have "js w ! (length w - 1) = last (js w)"
    using assms(2) by (simp add: last_conv_nth length_js js_Nil_iff)
  ultimately show ?thesis by (metis is_word_to_upper)
qed

lemma word_then_boundary:
  assumes "w \<noteq> []" "is_word (last (js w))"
  shows "(concat (map (rmatch WordB) (rmatch (lit_ci w) (None, l))) \<noteq> [])
         = (starts_with_ci w l \<and> ends_word (length w) l)"
proof (cases "starts_with_ci w l")
  case False
  then show ?thesis by (simp add: rmatch_lit_ci)
next
  case True
  then have "is_word (l ! (length w - 1))"
    using starts_with_ci_last [OF True assms(1)] assms(2) by simp
  with True assms(1) show ?thesis
    by (simp add: rmatch_lit_ci word_before_def word_after_def ends_word_def split: list.split)
qed

lemma words_then_boundary:
  assumes "list_all (\<lambda>w. w \<noteq> [] \<and> is_word (last (js w))) ws"
  shows "(rmatch (Seq (words_ci ws) WordB) (None, l) \<noteq> [])
         = list_ex (\<lambda>k. starts_with_ci k l \<and> ends_word (length k) l) ws"
  using assms
proof (induction ws)
  case Nil
  show ?case by (simp add: rmatch_words_ci)
next
  case (Cons w ws)
  have "(rmatch (Seq (words_ci (w # ws)) WordB) (None, l) \<noteq> [])
        = (concat (map (rmatch WordB) (rmatch (lit_ci w) (None, l))) \<noteq> []
           \<or> rmatch (Seq (words_ci ws) WordB) (None, l) \<noteq> [])"
    by (simp add: rmatch_words_ci)
  with Cons word_then_boundary [of w l] show ?case by simp
qed

lemma header_keywords_words: "list_all (\<lambda>w. w \<noteq> [] \<and> is_word (last (js w))) header_keywords"
  by code_simp

lemma test_boundary_re: "test boundary_re l = header_line l"
  using words_then_boundary [OF header_keywords_words, of l]
  by (simp add: boundary_re_def test_Bol header_line_def)

lemma rmatch_words_ci_Nil:
  "(rmatch (words_ci ws) (p, s) = []) = (\<not> list_ex (\<lambda>k. starts_with_ci k s) ws)"
  by (induction ws) (simp_all add: rmatch_words_ci rmatch_lit_ci)

lemma upt_Suc_shift: "[0..<Suc (Suc n)] = 0 # map Suc [0..<Suc n]"
  by (simp add: upt_conv_Cons map_Suc_upt del: upt_Suc)

lemma list_ex_Cons_map: "list_ex f (a # map g xs) = (f a \<or> list_ex (\<lambda>i. f (g i)) xs)"
  by (induction xs) auto

lemma list_ex_upt_shift:
  "list_ex f [0..<Suc (Suc n)] = (f 0 \<or> list_ex (\<lambda>i. f (Suc i)) [0..<Suc n])"
  by (simp only: upt_Suc_shift list_ex_Cons_map)

lemma search_words_ci:
  "(search (words_ci ws) p s = None)
   = (\<not> list_ex (\<lambda>i. list_ex (\<lambda>k. starts_with_ci k (drop i s)) ws) [0..<Suc (length s)])"
proof (induction s arbitrary: p)
  case Nil
  have "(search (words_ci ws) p [] = None) = (rmatch (words_ci ws) (p, []) = [])"
    by (simp split: list.split)
  then show ?case by (simp only: rmatch_words_ci_Nil) simp
next
  case (Cons x xs)
  have "(search (words_ci ws) p (x # xs) = None)
        = (rmatch (words_ci ws) (p, x # xs) = [] \<and> search (words_ci ws) (Some x) xs = None)"
    by (simp split: list.split option.split)
  also have "\<dots> = (\<not> list_ex (\<lambda>k. starts_with_ci k (x # xs)) ws
                   \<and> \<not> list_ex (\<lambda>i. list_ex (\<lambda>k. starts_with_ci k (drop i xs)) ws) [0..<Suc (length xs)])"
    by (simp only: rmatch_words_ci_Nil Cons.IH)
  also have "\<dots> = (\<not> list_ex (\<lambda>i. list_ex (\<lambda>k. starts_with_ci k (drop i (x # xs))) ws)
                         [0..<Suc (length (x # xs))])"
    by (simp only: length_Cons list_ex_upt_shift drop_Suc_Cons drop_0) simp
  finally show ?case .
qed

lemma test_words_ci: "test (words_ci ws) l = list_ex (\<lambda>k. contains_ci k l) ws"
proof -
  have "test (words_ci ws) l
        = list_ex (\<lambda>i. list_ex (\<lambda>k. starts_with_ci k (drop i l)) ws) [0..<Suc (length l)]"
    using search_words_ci [of ws None l] by (simp add: test_def)
  also have "\<dots> = list_ex (\<lambda>k. contains_ci k l) ws"
    unfolding contains_ci_def list_ex_iff by blast
  finally show ?thesis .
qed

lemma match_first_None: "(match_first r s = None) = (\<not> test r s)"
  by (simp add: match_first_def test_def split: option.split)

section \<open>The bounds of a section\<close>

lemma first_index:
  "(case filter (\<lambda>i. P (xs ! i)) [0..<length xs] of [] \<Rightarrow> None | i # _ \<Rightarrow> Some i)
   = (case dropWhile (\<lambda>x. \<not> P x) xs of [] \<Rightarrow> None
      | _ # _ \<Rightarrow> Some (length (takeWhile (\<lambda>x. \<not> P x) xs)))"
proof (induction xs)
  case Nil
  show ?case by simp
next
  case (Cons x xs)
  have upt: "[0..<length (x # xs)] = 0 # map Suc [0..<length xs]"
    by (simp add: upt_conv_Cons map_Suc_upt del: upt_Suc)
  have flt: "filter (\<lambda>i. P ((x # xs) ! i)) (map Suc [0..<length xs])
             = map Suc (filter (\<lambda>i. P (xs ! i)) [0..<length xs])"
    by (simp add: filter_map comp_def)
  show ?case
  proof (cases "P x")
    case True
    then show ?thesis by (simp only: upt) simp
  next
    case False
    then have l: "filter (\<lambda>i. P ((x # xs) ! i)) [0..<length (x # xs)]
                  = map Suc (filter (\<lambda>i. P (xs ! i)) [0..<length xs])"
      by (simp only: upt) (simp add: flt)
    show ?thesis
    proof (cases "dropWhile (\<lambda>x. \<not> P x) xs")
      case Nil
      then have "filter (\<lambda>i. P (xs ! i)) [0..<length xs] = []"
        using Cons.IH by (cases "filter (\<lambda>i. P (xs ! i)) [0..<length xs]") simp_all
      with Nil False show ?thesis by (simp only: l) (simp del: dropWhile_eq_Nil_conv)
    next
      case (Cons h rest)
      then obtain i tl where f: "filter (\<lambda>i. P (xs ! i)) [0..<length xs] = i # tl"
        and i: "i = length (takeWhile (\<lambda>x. \<not> P x) xs)"
        using Cons.IH by (cases "filter (\<lambda>i. P (xs ! i)) [0..<length xs]") simp_all
      from Cons False show ?thesis by (simp only: l f) (simp add: i)
    qed
  qed
qed

lemma find_end_takeWhile:
  "i \<le> length lines \<Longrightarrow>
   find_end lines i = i + length (takeWhile (\<lambda>l. \<not> test boundary_re l) (drop i lines))"
proof (induction lines i rule: find_end.induct)
  case (1 lines i)
  show ?case
  proof (cases "i < length lines")
    case False
    with "1.prems" show ?thesis by (simp add: find_end.simps [of lines i])
  next
    case True
    then have d: "drop i lines = lines ! i # drop (Suc i) lines"
      by (simp add: Cons_nth_drop_Suc)
    show ?thesis
    proof (cases "test boundary_re (lines ! i)")
      case True
      with \<open>i < length lines\<close> show ?thesis by (simp add: find_end.simps [of lines i] d)
    next
      case False
      with \<open>i < length lines\<close> "1.IH" show ?thesis
        by (simp add: find_end.simps [of lines i] d)
    qed
  qed
qed

lemma take_length_takeWhile: "take (length (takeWhile P xs)) xs = takeWhile P xs"
  by (induction xs) simp_all

lemma section_range_spec:
  "section_range lines re =
     (case dropWhile (\<lambda>l. \<not> test re l) lines of
        [] \<Rightarrow> None
      | h # rest \<Rightarrow> Some (length (takeWhile (\<lambda>l. \<not> test re l) lines),
                         Suc (length (takeWhile (\<lambda>l. \<not> test re l) lines))
                           + length (takeWhile (\<lambda>l. \<not> header_line l) rest)))"
proof (cases "dropWhile (\<lambda>l. \<not> test re l) lines")
  case Nil
  then have "filter (\<lambda>idx. test re (lines ! idx)) [0..<length lines] = []"
    using first_index [of "test re" lines]
    by (cases "filter (\<lambda>idx. test re (lines ! idx)) [0..<length lines]") simp_all
  with Nil show ?thesis
    by (simp only: section_range_def Let_def) simp
next
  case (Cons h rest)
  define start where "start = length (takeWhile (\<lambda>l. \<not> test re l) lines)"
  have dr: "drop start lines = h # rest"
    using Cons by (simp add: start_def dropWhile_eq_drop)
  then have lt: "start < length lines"
    by (metis drop_all leI list.distinct(1))
  have rest: "drop (Suc start) lines = rest"
    using dr by (metis drop_Suc list.sel(3) tl_drop)
  have "find_end lines (start + 1) = Suc start + length (takeWhile (\<lambda>l. \<not> header_line l) rest)"
    using find_end_takeWhile [of "start + 1" lines] lt rest by (simp add: test_boundary_re)
  moreover obtain tl where "filter (\<lambda>idx. test re (lines ! idx)) [0..<length lines] = start # tl"
    using first_index [of "test re" lines] Cons
    by (cases "filter (\<lambda>idx. test re (lines ! idx)) [0..<length lines]") (simp_all add: start_def)
  ultimately show ?thesis
    using Cons by (simp only: section_range_def Let_def) (simp add: start_def)
qed

text \<open>
  C3 (as amended). For every text and header pattern, \<^verbatim>\<open>findSection\<close> starts the section
  at the first line that matches the header pattern, whether or not the pattern matches
  again later. The section goes on up to, and not including, the first later line that
  starts with one of the fourteen header keywords, letters compared without regard to
  case, where the keyword is followed by a word boundary: the end of the line or a code
  unit that is no letter, digit or underscore. Without such a line it goes on to the end
  of the text. The result is the trimmed join of these lines, and it is the empty string
  when no line matches the header pattern.
\<close>

theorem findSection_first_header_to_next_keyword:
  "findSection text re =
     (case dropWhile (\<lambda>l. \<not> test re l) (split_str 10 text) of
        [] \<Rightarrow> []
      | h # rest \<Rightarrow> trim (join_str (js ''\<newline>'') (h # takeWhile (\<lambda>l. \<not> header_line l) rest)))"
proof (cases "dropWhile (\<lambda>l. \<not> test re l) (split_str 10 text)")
  case Nil
  then have "section_range (split_str 10 text) re = None"
    by (simp only: section_range_spec) simp
  with Nil show ?thesis by (simp only: findSection_def Let_def) simp
next
  case (Cons h rest)
  define lines where "lines = split_str 10 text"
  define start where "start = length (takeWhile (\<lambda>l. \<not> test re l) lines)"
  have dr: "drop start lines = h # rest"
    using Cons by (simp add: start_def lines_def dropWhile_eq_drop)
  show ?thesis
    using Cons dr
    by (simp add: findSection_def section_range_spec Let_def lines_def [symmetric]
        start_def [symmetric] take_length_takeWhile)
qed

text \<open>
  The claim as the specification states it, that the section ends at the first later line
  that starts with a keyword, fails: the line "Experienced in Go" starts with the keyword
  "experience", and the Skills section runs over it to the line "Education".
\<close>

theorem findSection_keyword_prefix_counterexample:
  "starts_with_keyword (js ''Experienced in Go'')
   \<and> findSection prefix_input skills_hdr_re = js ''Skills\<newline>Experienced in Go''"
  by code_simp

section \<open>The title\<close>

lemma pick_title_spec:
  "pick_title lines =
     Inr (case lines of
            a # l # rest \<Rightarrow>
              if length l < 80 \<and> \<not> list_ex (\<lambda>k. contains_ci k l) title_words then l else []
          | _ \<Rightarrow> [])"
proof (cases lines)
  case Nil
  then show ?thesis by (simp add: pick_title_def truthy_def)
next
  case (Cons a tl)
  show ?thesis
  proof (cases tl)
    case Nil
    with Cons show ?thesis by (simp add: pick_title_def truthy_def)
  next
    case (Cons l rest)
    with \<open>lines = a # tl\<close> show ?thesis
      by (simp add: pick_title_def truthy_def deref_def and_then_Inr match_first_None
          title_re_def test_words_ci)
  qed
qed

lemma and_then_eq_Inr: "(and_then m f = Inr y) = (\<exists>x. m = Inr x \<and> f x = Inr y)"
  by (cases m) (simp_all add: and_then_def)

lemma parse_fields:
  assumes "parseResumeText text = Inr r"
  shows "pick_title (normalize text) = Inr (title r)"
    and "skills r = extractSkills (join_str (js ''\<newline>'') (normalize text))"
    and "links (contact r) = all_links (join_str (js ''\<newline>'') (normalize text))"
    and "extractEducation (join_str (js ''\<newline>'') (normalize text)) = Inr (education r)"
    and "extractExperience (join_str (js ''\<newline>'') (normalize text)) = Inr (experience r)"
    and "extractProjects (join_str (js ''\<newline>'') (normalize text)) = Inr (projects r)"
  using assms unfolding parseResumeText_def Let_def and_then_eq_Inr
  by auto

text \<open>
  C6 (as amended). For every input the title is the second normalized line when that
  line has fewer than 80 code units and contains none of the words email, phone,
  linkedin, github, summary, objective, experience, education and projects, anywhere in
  the line and without regard to case; otherwise, and when there is no second line, the
  title is the empty string.
\<close>

theorem title_is_second_line_without_title_words:
  "\<exists>r. parseResumeText s = Inr r
       \<and> title r = (case normalize s of
                      a # l # rest \<Rightarrow>
                        if length l < 80 \<and> \<not> list_ex (\<lambda>k. contains_ci k l) title_words
                        then l else []
                    | _ \<Rightarrow> [])"
proof -
  obtain r where r: "parseResumeText s = Inr r"
    using parseResumeText_total by blast
  from parse_fields(1) [OF r] have "Inr (title r) = pick_title (normalize s)" by simp
  then have "title r = (case normalize s of
                      a # l # rest \<Rightarrow>
                        if length l < 80 \<and> \<not> list_ex (\<lambda>k. contains_ci k l) title_words
                        then l else []
                    | _ \<Rightarrow> [])"
    by (simp only: pick_title_spec sum.inject)
  with r show ?thesis by blast
qed

text \<open>
  The claim as the specification states it fails where the second line is the section
  header "Skills": the title is then "Skills", not the empty string.
\<close>

theorem title_skills_counterexample:
  "parseResumeText (js ''Jane\<newline>Skills'') =
     Inr \<lparr>name = js ''Jane'', title = js ''Skills'',
          contact = \<lparr>email = [], phone = [], location = [], links = []\<rparr>,
          summary = [], skills = [], education = [], experience = [], projects = []\<rparr>"
  by code_simp

section \<open>No duplicates\<close>

lemma distinct_foldl_set_insert: "distinct acc \<Longrightarrow> distinct (foldl set_insert acc xs)"
  by (induction xs arbitrary: acc) simp_all

lemma distinct_dedup: "distinct (dedup xs)"
  by (simp add: dedup_def distinct_foldl_set_insert)

lemma distinct_extractSkills: "distinct (extractSkills text)"
  by (simp add: extractSkills_def Let_def distinct_dedup)

lemma distinct_all_links: "distinct (all_links blob)"
  by (simp add: all_links_def distinct_dedup)

lemma forEach_prefix_invariant:
  assumes step: "\<And>seen s x s'. I seen s \<Longrightarrow> f s x = Inr s' \<Longrightarrow> I (seen @ [x]) s'"
  shows "I seen s \<Longrightarrow> forEach f s xs = Inr s' \<Longrightarrow> I (seen @ xs) s'"
proof (induction xs arbitrary: seen s)
  case Nil
  then show ?case by simp
next
  case (Cons x xs)
  from Cons.prems(2) obtain s1 where s1: "f s x = Inr s1" and rest: "forEach f s1 xs = Inr s'"
    by (cases "f s x") simp_all
  from step [OF Cons.prems(1) s1] have "I (seen @ [x]) s1" .
  from Cons.IH [OF this rest] show ?case by simp
qed

lemma proj_line_distinct:
  assumes "proj_line (entries, current) l = Inr (entries', current')"
    and "\<forall>p \<in> set (push_current entries current). distinct (tech p)"
  shows "\<forall>p \<in> set (push_current entries' current'). distinct (tech p)"
  using assms
  by (auto simp: proj_line_def deref_or_new and_then_Inr Let_def push_current_def new_proj_def
      distinct_dedup split: if_splits option.splits)

lemma distinct_extractProjects:
  assumes "extractProjects text = Inr ps"
  shows "\<forall>p \<in> set ps. distinct (tech p)"
proof (cases "findSection text proj_hdr_re = []")
  case True
  with assms show ?thesis by (simp add: extractProjects_def)
next
  case False
  with assms obtain entries current where
    run: "forEach proj_line ([], None) (section_lines (findSection text proj_hdr_re)) = Inr (entries, current)"
    and ps: "ps = push_current entries current"
    by (auto simp: extractProjects_def Let_def and_then_eq_Inr)
  have "(\<lambda>seen st. \<forall>p \<in> set (push_current (fst st) (snd st)). distinct (tech p))
          ([] @ section_lines (findSection text proj_hdr_re)) (entries, current)"
  proof (rule forEach_prefix_invariant [where f = proj_line and s = "([], None)", OF _ _ run])
    show "\<forall>p \<in> set (push_current (fst ([], None)) (snd ([], None))). distinct (tech p)"
      by (simp add: push_current_def)
  next
    fix seen :: "jsstring list" and s x s'
    assume "\<forall>p \<in> set (push_current (fst s) (snd s)). distinct (tech p)" "proj_line s x = Inr s'"
    then show "\<forall>p \<in> set (push_current (fst s') (snd s')). distinct (tech p)"
      using proj_line_distinct [of "fst s" "snd s" x "fst s'" "snd s'"] by simp
  qed
  with ps show ?thesis by simp
qed

text \<open>
  C7. In the record the parser returns, no string occurs twice in the skills, in the links
  of the contact information, or in the tech list of any project entry.
\<close>

theorem no_duplicates:
  assumes "parseResumeText s = Inr r"
  shows "distinct (skills r) \<and> distinct (links (contact r))
         \<and> (\<forall>p \<in> set (projects r). distinct (tech p))"
  using parse_fields(2,3,6) [OF assms] distinct_extractSkills distinct_all_links
    distinct_extractProjects
  by metis

lemma duplicates_record:
  "parseResumeText duplicates_input =
     Inr \<lparr>name = js ''Ann Lee'', title = js ''Skills'',
          contact = \<lparr>email = [], phone = [], location = js ''Go, Rust, Go'',
                     links = [js ''https://a.io'']\<rparr>,
          summary = [], skills = [js ''Go'', js ''Rust''],
          education = [], experience = [],
          projects = [\<lparr>proj_name = js ''Tracker'', description = [],
                       tech = [js ''Go'', js ''SQL''], link = js ''https://a.io''\<rparr>]\<rparr>"
  by code_simp

theorem no_duplicates_witness:
  "\<exists>r. parseResumeText duplicates_input = Inr r
       \<and> skills r = [js ''Go'', js ''Rust'']
       \<and> links (contact r) = [js ''https://a.io'']
       \<and> map tech (projects r) = [[js ''Go'', js ''SQL'']]
       \<and> distinct (skills r) \<and> distinct (links (contact r))
       \<and> list_all (\<lambda>p. distinct (tech p)) (projects r)"
  using no_duplicates [OF duplicates_record] duplicates_record
  by (simp add: list_all_iff)

section \<open>The bullets of an experience entry\<close>

lemma bullets_role_entry: "bullets (role_entry l) = []"
  by (simp add: role_entry_def Let_def new_exp_def split: option.split)

lemma bullets_from_more: "bullets_from seen e \<Longrightarrow> bullets_from (seen @ [l]) e"
  unfolding bullets_from_def by (blast intro: list_emb_prefix)

lemma bullets_from_empty: "bullets e = [] \<Longrightarrow> bullets_from seen e"
  unfolding bullets_from_def by (rule exI [of _ "[]"]) simp

lemma bullets_from_snoc:
  assumes "bullets_from seen e" "bullets e' = bullets e @ [bullet_text l]"
  shows "bullets_from (seen @ [l]) e'"
proof -
  from assms(1) obtain ls where ls: "subseq ls seen" "bullets e = map bullet_text ls"
    unfolding bullets_from_def by blast
  have "subseq (ls @ [l]) (seen @ [l])" using ls(1) by simp
  moreover have "bullets e' = map bullet_text (ls @ [l])" using assms(2) ls(2) by simp
  ultimately show ?thesis unfolding bullets_from_def by blast
qed

lemma exp_line_cases:
  assumes "exp_line (entries, current) l = Inr (entries', current')"
  obtains
    (skip) "\<not> bullet_line l" "entries' = entries" "current' = current"
  | (role) "\<not> bullet_line l" "entries' = push_current entries current" "current' = Some (role_entry l)"
  | (period) c where "\<not> bullet_line l" "entries' = entries"
      "current' = Some (c\<lparr>exp_period := l\<rparr>)" "c = (case current of None \<Rightarrow> new_exp | Some x \<Rightarrow> x)"
  | (bullet) c where "bullet_line l" "entries' = entries"
      "current' = Some (c\<lparr>bullets := bullets c @ [bullet_text l]\<rparr>)"
      "c = (case current of None \<Rightarrow> new_exp | Some x \<Rightarrow> x)"
proof (cases "test exp_bare_re l")
  case True
  with assms show ?thesis by (intro skip) (simp_all add: exp_line_def bullet_line_def)
next
  case nb: False
  show ?thesis
  proof (cases "(test dash_re l \<and> test connector_re l) \<or> test role_re l")
    case True
    with nb assms show ?thesis by (intro role) (auto simp: exp_line_def bullet_line_def)
  next
    case nr: False
    show ?thesis
    proof (cases "test (year_range_re 12) l")
      case True
      with nb nr assms show ?thesis
        by (intro period [of "case current of None \<Rightarrow> new_exp | Some x \<Rightarrow> x"])
           (auto simp: exp_line_def bullet_line_def deref_or_new and_then_Inr)
    next
      case False
      with nb nr assms show ?thesis
        by (intro bullet [of "case current of None \<Rightarrow> new_exp | Some x \<Rightarrow> x"])
           (auto simp: exp_line_def bullet_line_def bullet_text_def deref_or_new and_then_Inr
              split: if_splits)
    qed
  qed
qed

lemma exp_line_bullets_from:
  assumes "exp_line (entries, current) l = Inr (entries', current')"
    and "\<forall>e \<in> set (push_current entries current). bullets_from seen e"
  shows "\<forall>e \<in> set (push_current entries' current'). bullets_from (seen @ [l]) e"
  using assms(1)
proof (cases rule: exp_line_cases)
  case skip
  with assms(2) show ?thesis by (auto intro: bullets_from_more)
next
  case role
  with assms(2) show ?thesis
    by (auto simp: push_current_def [of _ "Some _"] intro: bullets_from_more bullets_from_empty bullets_role_entry)
next
  case (period c)
  have "bullets_from seen c"
    using assms(2) period(4)
    by (cases current) (auto simp: push_current_def new_exp_def intro: bullets_from_empty)
  then have "bullets_from (seen @ [l]) (c\<lparr>exp_period := l\<rparr>)"
    unfolding bullets_from_def by (auto intro: list_emb_prefix)
  moreover have "\<forall>e \<in> set entries. bullets_from (seen @ [l]) e"
    using assms(2) by (cases current) (auto simp: push_current_def intro: bullets_from_more)
  ultimately show ?thesis using period by (auto simp: push_current_def)
next
  case (bullet c)
  have "bullets_from seen c"
    using assms(2) bullet(4)
    by (cases current) (auto simp: push_current_def new_exp_def intro: bullets_from_empty)
  then have "bullets_from (seen @ [l]) (c\<lparr>bullets := bullets c @ [bullet_text l]\<rparr>)"
    by (rule bullets_from_snoc) simp
  moreover have "\<forall>e \<in> set entries. bullets_from (seen @ [l]) e"
    using assms(2) by (cases current) (auto simp: push_current_def intro: bullets_from_more)
  ultimately show ?thesis using bullet by (auto simp: push_current_def)
qed

lemma exp_line_all_bullets:
  assumes "exp_line (entries, current) l = Inr (entries', current')"
    and "concat (map bullets (push_current entries current)) = map bullet_text (filter bullet_line seen)"
  shows "concat (map bullets (push_current entries' current'))
         = map bullet_text (filter bullet_line (seen @ [l]))"
  using assms(1)
proof (cases rule: exp_line_cases)
  case skip
  with assms(2) show ?thesis by simp
next
  case role
  with assms(2) show ?thesis by (simp add: push_current_def [of _ "Some _"] bullets_role_entry)
next
  case (period c)
  with assms(2) show ?thesis
    by (cases current) (simp_all add: push_current_def new_exp_def)
next
  case (bullet c)
  with assms(2) show ?thesis
    by (cases current) (simp_all add: push_current_def new_exp_def)
qed

lemma extractExperience_run:
  assumes "extractExperience text = Inr es" "findSection text exp_hdr_re \<noteq> []"
  obtains entries current where
    "forEach exp_line ([], None) (section_lines (findSection text exp_hdr_re)) = Inr (entries, current)"
    "es = push_current entries current"
  using assms by (auto simp: extractExperience_def Let_def and_then_eq_Inr)

text \<open>
  C8. For every input, the bullets of each experience entry are the bullets of lines of
  the experience section, in the order of the lines: a line becomes a bullet by losing a
  leading hyphen or bullet sign. Bullets are only appended: the bullets of all entries,
  in the order of the entries, are the bullets of exactly the bullet lines of the
  section, in the order of the lines, so none is removed or overwritten.
\<close>

theorem bullets_keep_section_order:
  assumes "extractExperience text = Inr es"
  shows "(\<forall>e \<in> set es. \<exists>ls. subseq ls (section_lines (findSection text exp_hdr_re))
                               \<and> bullets e = map bullet_text ls)
         \<and> concat (map bullets es)
             = map bullet_text (filter bullet_line (section_lines (findSection text exp_hdr_re)))"
proof (cases "findSection text exp_hdr_re = []")
  case True
  with assms have "es = []" by (simp add: extractExperience_def)
  with True show ?thesis by (simp add: section_lines_def split_str_def nonempty_def trim_def)
next
  case False
  define L where "L = section_lines (findSection text exp_hdr_re)"
  from assms False obtain entries current where
    run: "forEach exp_line ([], None) L = Inr (entries, current)"
    and es: "es = push_current entries current"
    unfolding L_def by (rule extractExperience_run)
  have "(\<lambda>seen st. (\<forall>e \<in> set (push_current (fst st) (snd st)). bullets_from seen e)
                   \<and> concat (map bullets (push_current (fst st) (snd st)))
                       = map bullet_text (filter bullet_line seen))
          ([] @ L) (entries, current)"
  proof (rule forEach_prefix_invariant [where f = exp_line and s = "([], None)", OF _ _ run])
    show "(\<forall>e \<in> set (push_current (fst ([], None)) (snd ([], None))). bullets_from [] e)
          \<and> concat (map bullets (push_current (fst ([], None)) (snd ([], None))))
              = map bullet_text (filter bullet_line [])"
      by (simp add: push_current_def)
  next
    fix seen :: "jsstring list" and s x s'
    assume "(\<forall>e \<in> set (push_current (fst s) (snd s)). bullets_from seen e)
            \<and> concat (map bullets (push_current (fst s) (snd s)))
                = map bullet_text (filter bullet_line seen)"
      and "exp_line s x = Inr s'"
    then show "(\<forall>e \<in> set (push_current (fst s') (snd s')). bullets_from (seen @ [x]) e)
               \<and> concat (map bullets (push_current (fst s') (snd s')))
                   = map bullet_text (filter bullet_line (seen @ [x]))"
      using exp_line_bullets_from [of "fst s" "snd s" x "fst s'" "snd s'" seen]
        exp_line_all_bullets [of "fst s" "snd s" x "fst s'" "snd s'" seen]
      by simp
  qed
  with es show ?thesis by (simp add: bullets_from_def L_def)
qed

lemma roles_entries:
  "extractExperience roles_input =
     Inr [\<lparr>company = js ''Acme'', role = js ''Engineer'', exp_period = js ''2019 to 2021'',
           bullets = [js ''built x'', js ''shipped y'', js ''z'']\<rparr>]"
  by code_simp

lemma roles_bullet_lines:
  "filter bullet_line (section_lines (findSection roles_input exp_hdr_re))
   = [js ''- built x'', js ''shipped y'', js ''-z'']"
  by code_simp

theorem bullets_keep_section_order_witness:
  "extractExperience roles_input =
     Inr [\<lparr>company = js ''Acme'', role = js ''Engineer'', exp_period = js ''2019 to 2021'',
           bullets = [js ''built x'', js ''shipped y'', js ''z'']\<rparr>]
   \<and> [js ''built x'', js ''shipped y'', js ''z'']
       = map bullet_text [js ''- built x'', js ''shipped y'', js ''-z'']"
  using bullets_keep_section_order [OF roles_entries] roles_entries roles_bullet_lines
  by simp

text \<open>
  C10. The experience classifier can return an entry whose role and company are both
  empty: a section whose first line after the header is a plain description gives an
  entry with only a bullet, and one whose first line is a year range without a dash
  gives an entry with only a period.
\<close>

theorem experience_entry_without_role:
  "extractExperience (js ''Experience\<newline>Built things'') =
     Inr [\<lparr>company = [], role = [], exp_period = [], bullets = [js ''Built things'']\<rparr>]
   \<and> extractExperience (js ''Experience\<newline>2019 to 2021'') =
     Inr [\<lparr>company = [], role = [], exp_period = js ''2019 to 2021'', bullets = []\<rparr>]"
  by code_simp

section \<open>What a classifier reads\<close>

lemma built_from_more: "built_from seen f \<Longrightarrow> built_from (seen @ [l]) f"
  unfolding built_from_def by (blast intro: list_emb_prefix)

lemma built_from_empty: "built_from seen []"
  unfolding built_from_def by (rule exI [of _ "[]"]) simp

lemma built_from_line: "built_from (seen @ [l]) l"
  unfolding built_from_def by (rule exI [of _ "[l]"]) (simp add: subseq_singleton_left)

lemma join_str_snoc: "ls \<noteq> [] \<Longrightarrow> join_str sep (ls @ [l]) = join_str sep ls @ sep @ l"
  by (induction sep ls rule: join_str.induct) simp_all

lemma built_from_snoc:
  assumes "built_from seen f" "f \<noteq> []"
  shows "built_from (seen @ [l]) (f @ js '' '' @ l)"
proof -
  from assms(1) obtain ls where ls: "subseq ls seen" "f = join_str (js '' '') ls"
    unfolding built_from_def by blast
  with assms(2) have "ls \<noteq> []" by auto
  then have "f @ js '' '' @ l = join_str (js '' '') (ls @ [l])"
    using ls(2) by (simp add: join_str_snoc)
  moreover have "subseq (ls @ [l]) (seen @ [l])" using ls(1) by simp
  ultimately show ?thesis unfolding built_from_def by blast
qed

lemma edu_from_more: "edu_from seen e \<Longrightarrow> edu_from (seen @ [l]) e"
  unfolding edu_from_def by (blast intro: built_from_more)

lemma edu_from_new: "edu_from seen new_edu"
  by (simp add: edu_from_def new_edu_def built_from_empty)

lemma edu_from_current:
  assumes "\<forall>e \<in> set (push_current entries current). edu_from seen e"
  shows "edu_from seen (case current of None \<Rightarrow> new_edu | Some x \<Rightarrow> x)"
    and "\<forall>e \<in> set entries. edu_from seen e"
  using assms by (cases current; simp add: push_current_def edu_from_new)+

lemma edu_line_from:
  assumes "edu_line (entries, current) l = Inr (entries', current')"
    and inv: "\<forall>e \<in> set (push_current entries current). edu_from seen e"
  shows "\<forall>e \<in> set (push_current entries' current'). edu_from (seen @ [l]) e"
proof -
  define c where "c = (case current of None \<Rightarrow> new_edu | Some x \<Rightarrow> x)"
  have c: "edu_from (seen @ [l]) c" and old: "\<forall>e \<in> set entries. edu_from (seen @ [l]) e"
    using edu_from_current [OF inv] by (auto simp: c_def intro: edu_from_more)
  have all: "\<forall>e \<in> set (push_current entries current). edu_from (seen @ [l]) e"
    using inv by (auto intro: edu_from_more)
  consider (skip) "entries' = entries" "current' = current"
    | (deg) "entries' = push_current entries current" "current' = Some (new_edu\<lparr>degree := l\<rparr>)"
    | (inst) "entries' = entries" "institution c \<noteq> []"
        "current' = Some (c\<lparr>institution := institution c @ js '' '' @ l\<rparr>)"
    | (inst0) "entries' = entries" "current' = Some (c\<lparr>institution := l\<rparr>)"
    | (per) "entries' = entries" "current' = Some (c\<lparr>period := l\<rparr>)"
    | (det) "entries' = entries" "details c \<noteq> []"
        "current' = Some (c\<lparr>details := details c @ js '' '' @ l\<rparr>)"
    | (det0) "entries' = entries" "current' = Some (c\<lparr>details := l\<rparr>)"
  proof -
    have step: "edu_line (entries, current) l =
        (if test edu_skip_re l then Inr (entries, current)
         else if test degree_re l then Inr (push_current entries current, Some (new_edu\<lparr>degree := l\<rparr>))
         else if test institution_re l then
           Inr (entries, Some (if institution c \<noteq> [] then c\<lparr>institution := institution c @ js '' '' @ l\<rparr>
                               else c\<lparr>institution := l\<rparr>))
         else if test (year_range_re 5) l then Inr (entries, Some (c\<lparr>period := l\<rparr>))
         else Inr (entries, Some (c\<lparr>details := (if details c \<noteq> [] then details c @ js '' '' else []) @ l\<rparr>)))"
      by (simp add: edu_line_def deref_or_new and_then_Inr c_def)
    show ?thesis
    proof (cases "test edu_skip_re l")
      case True
      with assms(1) step show ?thesis by (intro skip) simp_all
    next
      case f1: False
      show ?thesis
      proof (cases "test degree_re l")
        case True
        with f1 assms(1) step show ?thesis by (intro deg) simp_all
      next
        case f2: False
        show ?thesis
        proof (cases "test institution_re l")
          case True
          with f1 f2 assms(1) step show ?thesis
            by (cases "institution c = []") (intro inst0, simp_all, intro inst, simp_all)
        next
          case f3: False
          show ?thesis
          proof (cases "test (year_range_re 5) l")
            case True
            with f1 f2 f3 assms(1) step show ?thesis by (intro per) simp_all
          next
            case False
            with f1 f2 f3 assms(1) step show ?thesis
              by (cases "details c = []") (intro det0, simp_all, intro det, simp_all)
          qed
        qed
      qed
    qed
  qed
  then show ?thesis
  proof cases
    case skip
    with all show ?thesis by simp
  next
    case deg
    have "edu_from (seen @ [l]) (new_edu\<lparr>degree := l\<rparr>)"
      by (simp add: edu_from_def new_edu_def built_from_empty built_from_line)
    with deg all show ?thesis by (simp add: push_current_def [of _ "Some _"])
  next
    case inst
    have "edu_from (seen @ [l]) (c\<lparr>institution := institution c @ js '' '' @ l\<rparr>)"
      using c inst(2) edu_from_current(1) [OF inv]
      by (simp add: edu_from_def c_def [symmetric] built_from_snoc)
    with inst old show ?thesis by (simp add: push_current_def)
  next
    case inst0
    have "edu_from (seen @ [l]) (c\<lparr>institution := l\<rparr>)"
      using c by (simp add: edu_from_def built_from_line)
    with inst0 old show ?thesis by (simp add: push_current_def)
  next
    case per
    have "edu_from (seen @ [l]) (c\<lparr>period := l\<rparr>)"
      using c by (simp add: edu_from_def built_from_line)
    with per old show ?thesis by (simp add: push_current_def)
  next
    case det
    have "edu_from (seen @ [l]) (c\<lparr>details := details c @ js '' '' @ l\<rparr>)"
      using c det(2) edu_from_current(1) [OF inv]
      by (simp add: edu_from_def c_def [symmetric] built_from_snoc)
    with det old show ?thesis by (simp add: push_current_def)
  next
    case det0
    have "edu_from (seen @ [l]) (c\<lparr>details := l\<rparr>)"
      using c by (simp add: edu_from_def built_from_line)
    with det0 old show ?thesis by (simp add: push_current_def)
  qed
qed

lemma edu_from_final: "edu_from seen e \<Longrightarrow> edu_from seen (edu_final e)"
  by (simp add: edu_from_def edu_final_def)

lemma extractEducation_from_section:
  assumes "extractEducation text = Inr es"
  shows "\<forall>e \<in> set es. edu_from (section_lines (findSection text edu_hdr_re)) e"
proof (cases "findSection text edu_hdr_re = []")
  case True
  with assms show ?thesis by (simp add: extractEducation_def)
next
  case False
  define L where "L = section_lines (findSection text edu_hdr_re)"
  from assms False obtain entries current where
    run: "forEach edu_line ([], None) L = Inr (entries, current)"
    and es: "es = map edu_final (push_current entries current)"
    by (auto simp: extractEducation_def Let_def and_then_eq_Inr L_def)
  have "(\<lambda>seen st. \<forall>e \<in> set (push_current (fst st) (snd st)). edu_from seen e)
          ([] @ L) (entries, current)"
  proof (rule forEach_prefix_invariant [where f = edu_line and s = "([], None)", OF _ _ run])
    show "\<forall>e \<in> set (push_current (fst ([], None)) (snd ([], None))). edu_from [] e"
      by (simp add: push_current_def)
  next
    fix seen :: "jsstring list" and s x s'
    assume "\<forall>e \<in> set (push_current (fst s) (snd s)). edu_from seen e" "edu_line s x = Inr s'"
    then show "\<forall>e \<in> set (push_current (fst s') (snd s')). edu_from (seen @ [x]) e"
      using edu_line_from [of "fst s" "snd s" x "fst s'" "snd s'" seen] by simp
  qed
  with es show ?thesis by (auto simp: L_def intro: edu_from_final)
qed

lemma length_takeWhile_le_index:
  "i < length xs \<Longrightarrow> \<not> P (xs ! i) \<Longrightarrow> length (takeWhile P xs) \<le> i"
proof (rule ccontr)
  assume a: "i < length xs" "\<not> P (xs ! i)" and "\<not> length (takeWhile P xs) \<le> i"
  then have lt: "i < length (takeWhile P xs)" by simp
  then have "takeWhile P xs ! i = xs ! i" by (rule takeWhile_nth)
  moreover have "takeWhile P xs ! i \<in> set (takeWhile P xs)" using lt by simp
  ultimately have "P (xs ! i)" by (metis set_takeWhileD)
  with a(2) show False by simp
qed

lemma range_ends_before_next_header:
  assumes r1: "section_range lines re1 = Some (a1, b1)"
    and r2: "section_range lines re2 = Some (a2, b2)"
    and lt: "a1 < a2" and hdr: "header_line (lines ! a2)"
  shows "a1 < b1 \<and> b1 \<le> a2 \<and> a2 < b2 \<and> b2 \<le> length lines"
proof -
  have shape: "a < b \<and> b \<le> length lines \<and> a < length lines
               \<and> b = Suc a + length (takeWhile (\<lambda>l. \<not> header_line l) (drop (Suc a) lines))"
    if "section_range lines re = Some (a, b)" for re a b
  proof (cases "dropWhile (\<lambda>l. \<not> test re l) lines")
    case Nil
    with that show ?thesis by (simp add: section_range_spec del: dropWhile_eq_Nil_conv)
  next
    case (Cons h rest)
    with that have a: "a = length (takeWhile (\<lambda>l. \<not> test re l) lines)"
      and b: "b = Suc a + length (takeWhile (\<lambda>l. \<not> header_line l) rest)"
      by (simp_all add: section_range_spec)
    have dr: "drop a lines = h # rest"
      using Cons by (simp add: a dropWhile_eq_drop)
    then have lt: "a < length lines"
      by (metis drop_all leI list.distinct(1))
    have rest: "drop (Suc a) lines = rest"
      using dr by (metis drop_Suc list.sel(3) tl_drop)
    have "length (takeWhile (\<lambda>l. \<not> header_line l) rest) \<le> length rest"
      by (rule length_takeWhile_le)
    moreover have "length rest = length lines - Suc a"
      using rest by (metis length_drop)
    ultimately show ?thesis using lt b rest by auto
  qed
  from shape [OF r1] shape [OF r2] lt
  have len: "a2 < length lines" and b1: "b1 = Suc a1 + length (takeWhile (\<lambda>l. \<not> header_line l) (drop (Suc a1) lines))"
    by simp_all
  have "a2 - Suc a1 < length (drop (Suc a1) lines)" using len lt by simp
  moreover have "\<not> \<not> header_line (drop (Suc a1) lines ! (a2 - Suc a1))"
    using hdr len lt by simp
  ultimately have "length (takeWhile (\<lambda>l. \<not> header_line l) (drop (Suc a1) lines)) \<le> a2 - Suc a1"
    by (rule length_takeWhile_le_index)
  with b1 lt have "b1 \<le> a2" by simp
  with shape [OF r1] shape [OF r2] show ?thesis by simp
qed

subsection \<open>Skills and summary\<close>

lemma set_foldl_set_insert: "set (foldl set_insert acc xs) = set acc \<union> set xs"
  by (induction xs arbitrary: acc) auto

lemma set_dedup: "set (dedup xs) = set xs"
  by (simp add: dedup_def set_foldl_set_insert)

lemma skills_split_empty: "rmatch skills_split_re (None, []) = []"
  by (simp add: skills_split_re_def Plus_def)

lemma skill_tokens_empty: "skill_tokens [] = []"
  by (simp add: skill_tokens_def split_re_def skills_split_empty nonempty_def trim_def)

lemma extractSkills_from_section:
  "(s \<in> set (extractSkills text)) = skill_from (findSection text skills_hdr_re) s"
proof (cases "findSection text skills_hdr_re = []")
  case True
  then show ?thesis
    by (simp add: extractSkills_def skill_from_def skill_tokens_empty)
next
  case False
  then show ?thesis
    by (auto simp: extractSkills_def Let_def skill_from_def skill_tokens_def set_dedup
        list_ex_iff)
qed

lemma subseq_take: "subseq (take n xs) xs"
  by (metis append_take_drop_id list_emb_prefix subseq_order.refl)

lemma subseq_drop: "subseq (drop n xs) xs"
  by (metis append_take_drop_id list_emb_append2 subseq_order.refl)

lemma extractSummary_from_source: "built_from (summary_source text) (extractSummary text nm)"
proof (cases "findSection text sum_hdr_re = []")
  case True
  define lines where "lines = section_lines text"
  define k where "k = (case find_index (\<lambda>l. str_includes l nm) lines of None \<Rightarrow> 0 | Some i \<Rightarrow> i)"
  have "subseq (take 2 (filter (test sentence_end_re) (take 4 (drop (k + 1) lines)))) lines"
    by (meson subseq_take subseq_drop subseq_filter_left subseq_order.trans)
  with True show ?thesis
    unfolding built_from_def summary_source_def extractSummary_def Let_def
      lines_def [symmetric] k_def [symmetric]
    by auto
next
  case False
  then show ?thesis
    unfolding built_from_def summary_source_def extractSummary_def Let_def
    using subseq_take by auto
qed

subsection \<open>Experience and projects\<close>

lemma role_from_more: "role_from seen e \<Longrightarrow> role_from (seen @ [l]) e"
  by (auto simp: role_from_def list_ex_iff)

lemma role_from_role_entry: "role_from (seen @ [l]) (role_entry l)"
  by (simp add: role_from_def list_ex_iff)

lemma exp_period_role_entry: "exp_period (role_entry l) = []"
  by (simp add: role_entry_def Let_def new_exp_def split: option.split)

lemma exp_line_head:
  assumes "exp_line (entries, current) l = Inr (entries', current')"
    and inv: "\<forall>e \<in> set (push_current entries current).
                (exp_period e = [] \<or> exp_period e \<in> set seen) \<and> role_from seen e"
  shows "\<forall>e \<in> set (push_current entries' current').
           (exp_period e = [] \<or> exp_period e \<in> set (seen @ [l])) \<and> role_from (seen @ [l]) e"
proof -
  have all: "\<forall>e \<in> set (push_current entries current).
               (exp_period e = [] \<or> exp_period e \<in> set (seen @ [l])) \<and> role_from (seen @ [l]) e"
    using inv by (auto intro: role_from_more)
  have old: "\<forall>e \<in> set entries.
               (exp_period e = [] \<or> exp_period e \<in> set (seen @ [l])) \<and> role_from (seen @ [l]) e"
    using all by (cases current) (simp_all add: push_current_def)
  have cur: "role_from (seen @ [l]) c \<and> (exp_period c = [] \<or> exp_period c \<in> set (seen @ [l]))"
    if "c = (case current of None \<Rightarrow> new_exp | Some x \<Rightarrow> x)" for c
    using all that by (cases current) (simp_all add: push_current_def new_exp_def role_from_def)
  from assms(1) show ?thesis
  proof (cases rule: exp_line_cases)
    case skip
    with all show ?thesis by simp
  next
    case role
    with all show ?thesis
      by (simp add: push_current_def [of _ "Some _"] exp_period_role_entry role_from_role_entry)
  next
    case (period c)
    have "role_from (seen @ [l]) (c\<lparr>exp_period := l\<rparr>)"
      using cur [OF period(4)] by (simp add: role_from_def)
    with period old show ?thesis by (simp add: push_current_def)
  next
    case (bullet c)
    have "role_from (seen @ [l]) (c\<lparr>bullets := bullets c @ [bullet_text l]\<rparr>)"
      using cur [OF bullet(4)] by (simp add: role_from_def)
    with bullet old cur [OF bullet(4)] show ?thesis by (simp add: push_current_def)
  qed
qed

lemma extractExperience_from_section:
  assumes "extractExperience text = Inr es"
  shows "\<forall>e \<in> set es. exp_from (section_lines (findSection text exp_hdr_re)) e"
proof (cases "findSection text exp_hdr_re = []")
  case True
  with assms show ?thesis by (simp add: extractExperience_def)
next
  case False
  define L where "L = section_lines (findSection text exp_hdr_re)"
  from assms False obtain entries current where
    run: "forEach exp_line ([], None) L = Inr (entries, current)"
    and es: "es = push_current entries current"
    unfolding L_def by (rule extractExperience_run)
  have "(\<lambda>seen st. (\<forall>e \<in> set (push_current (fst st) (snd st)). bullets_from seen e)
                   \<and> (\<forall>e \<in> set (push_current (fst st) (snd st)).
                         (exp_period e = [] \<or> exp_period e \<in> set seen) \<and> role_from seen e))
          ([] @ L) (entries, current)"
  proof (rule forEach_prefix_invariant [where f = exp_line and s = "([], None)", OF _ _ run])
    show "(\<forall>e \<in> set (push_current (fst ([], None)) (snd ([], None))). bullets_from [] e)
          \<and> (\<forall>e \<in> set (push_current (fst ([], None)) (snd ([], None))).
                (exp_period e = [] \<or> exp_period e \<in> set []) \<and> role_from [] e)"
      by (simp add: push_current_def)
  next
    fix seen :: "jsstring list" and s x s'
    assume "(\<forall>e \<in> set (push_current (fst s) (snd s)). bullets_from seen e)
            \<and> (\<forall>e \<in> set (push_current (fst s) (snd s)).
                  (exp_period e = [] \<or> exp_period e \<in> set seen) \<and> role_from seen e)"
      and "exp_line s x = Inr s'"
    then show "(\<forall>e \<in> set (push_current (fst s') (snd s')). bullets_from (seen @ [x]) e)
               \<and> (\<forall>e \<in> set (push_current (fst s') (snd s')).
                     (exp_period e = [] \<or> exp_period e \<in> set (seen @ [x]))
                     \<and> role_from (seen @ [x]) e)"
      using exp_line_bullets_from [of "fst s" "snd s" x "fst s'" "snd s'" seen]
        exp_line_head [of "fst s" "snd s" x "fst s'" "snd s'" seen]
      by simp
  qed
  with es show ?thesis by (simp add: exp_from_def L_def)
qed

lemma proj_from_more: "proj_from seen p \<Longrightarrow> proj_from (seen @ [l]) p"
  by (auto simp: proj_from_def list_ex_iff list_all_iff intro: built_from_more)

lemma proj_from_new: "proj_from seen new_proj"
  by (simp add: proj_from_def new_proj_def built_from_empty)

lemma proj_line_from:
  assumes "proj_line (entries, current) l = Inr (entries', current')"
    and inv: "\<forall>p \<in> set (push_current entries current). proj_from seen p"
  shows "\<forall>p \<in> set (push_current entries' current'). proj_from (seen @ [l]) p"
proof -
  define c where "c = (case current of None \<Rightarrow> new_proj | Some x \<Rightarrow> x)"
  have all: "\<forall>p \<in> set (push_current entries current). proj_from (seen @ [l]) p"
    using inv by (auto intro: proj_from_more)
  have old: "\<forall>p \<in> set entries. proj_from (seen @ [l]) p"
    using all by (cases current) (simp_all add: push_current_def)
  have c0: "proj_from seen c"
    using inv by (cases current) (simp_all add: c_def push_current_def proj_from_new)
  then have c: "proj_from (seen @ [l]) c" by (rule proj_from_more)
  have step: "proj_line (entries, current) l =
      (if test proj_bare_re l then Inr (entries, current)
       else if test marker_re l \<or> test proj_title_re l then
         Inr (push_current entries current,
              Some (new_proj\<lparr>proj_name := trim (replace_first marker_strip_re [] l)\<rparr>))
       else if test tech_re l then
         Inr (entries, Some (c\<lparr>tech := dedup (tech c @ tech_items l)\<rparr>))
       else if test link_re l then Inr (entries, Some (c\<lparr>link := link_of l\<rparr>))
       else Inr (entries, Some (c\<lparr>description := (if description c \<noteq> []
                                                    then description c @ js '' '' @ l else l)\<rparr>)))"
    by (simp add: proj_line_def deref_or_new and_then_Inr c_def Let_def tech_items_def link_of_def)
  show ?thesis
  proof (cases "test proj_bare_re l")
    case True
    with assms(1) step all show ?thesis by simp
  next
    case f1: False
    show ?thesis
    proof (cases "test marker_re l \<or> test proj_title_re l")
      case True
      have "proj_from (seen @ [l]) (new_proj\<lparr>proj_name := trim (replace_first marker_strip_re [] l)\<rparr>)"
        by (simp add: proj_from_def new_proj_def built_from_empty list_ex_iff)
      with True f1 assms(1) step all show ?thesis
        by (auto simp: push_current_def [of _ "Some _"])
    next
      case f2: False
      show ?thesis
      proof (cases "test tech_re l")
        case True
        have "proj_from (seen @ [l]) (c\<lparr>tech := dedup (tech c @ tech_items l)\<rparr>)"
          using c by (auto simp: proj_from_def set_dedup list_all_iff list_ex_iff)
        with True f1 f2 assms(1) step old show ?thesis
          by (auto simp: push_current_def)
      next
        case f3: False
        show ?thesis
        proof (cases "test link_re l")
          case True
          have "proj_from (seen @ [l]) (c\<lparr>link := link_of l\<rparr>)"
            using c by (simp add: proj_from_def list_ex_iff)
          with True f1 f2 f3 assms(1) step old show ?thesis
            by (auto simp: push_current_def)
        next
          case False
          have "built_from (seen @ [l]) (if description c \<noteq> [] then description c @ js '' '' @ l else l)"
            using c0 by (simp add: proj_from_def built_from_snoc built_from_line)
          then have "proj_from (seen @ [l]) (c\<lparr>description := (if description c \<noteq> []
                                                    then description c @ js '' '' @ l else l)\<rparr>)"
            using c by (simp add: proj_from_def)
          with False f1 f2 f3 assms(1) step old show ?thesis
            by (auto simp: push_current_def)
        qed
      qed
    qed
  qed
qed

lemma extractProjects_from_section:
  assumes "extractProjects text = Inr ps"
  shows "\<forall>p \<in> set ps. proj_from (section_lines (findSection text proj_hdr_re)) p"
proof (cases "findSection text proj_hdr_re = []")
  case True
  with assms show ?thesis by (simp add: extractProjects_def)
next
  case False
  define L where "L = section_lines (findSection text proj_hdr_re)"
  from assms False obtain entries current where
    run: "forEach proj_line ([], None) L = Inr (entries, current)"
    and ps: "ps = push_current entries current"
    by (auto simp: extractProjects_def Let_def and_then_eq_Inr L_def)
  have "(\<lambda>seen st. \<forall>p \<in> set (push_current (fst st) (snd st)). proj_from seen p)
          ([] @ L) (entries, current)"
  proof (rule forEach_prefix_invariant [where f = proj_line and s = "([], None)", OF _ _ run])
    show "\<forall>p \<in> set (push_current (fst ([], None)) (snd ([], None))). proj_from [] p"
      by (simp add: push_current_def)
  next
    fix seen :: "jsstring list" and s x s'
    assume "\<forall>p \<in> set (push_current (fst s) (snd s)). proj_from seen p" "proj_line s x = Inr s'"
    then show "\<forall>p \<in> set (push_current (fst s') (snd s')). proj_from (seen @ [x]) p"
      using proj_line_from [of "fst s" "snd s" x "fst s'" "snd s'" seen] by simp
  qed
  with ps show ?thesis by (simp add: L_def)
qed

subsection \<open>The lines of a section\<close>

lemma split_acc_append:
  "sep \<notin> set l \<Longrightarrow> split_acc sep acc (l @ r) = split_acc sep (rev l @ acc) r"
  by (induction l arbitrary: acc) simp_all

lemma split_join:
  "ls \<noteq> [] \<Longrightarrow> \<forall>l \<in> set ls. sep \<notin> set l \<Longrightarrow> split_acc sep [] (join_str [sep] ls) = ls"
proof (induction "[sep]" ls rule: join_str.induct)
  case 1
  then show ?case by simp
next
  case (2 x)
  then have "split_acc sep [] (x @ []) = split_acc sep (rev x @ []) []"
    by (intro split_acc_append) simp
  then show ?case by simp
next
  case (3 x y ys)
  have "split_acc sep [] (x @ (sep # join_str [sep] (y # ys)))
        = split_acc sep (rev x @ []) (sep # join_str [sep] (y # ys))"
    using "3.prems" by (intro split_acc_append) simp
  with 3 show ?case by simp
qed

lemma split_acc_no_sep:
  "sep \<notin> set acc \<Longrightarrow> \<forall>l \<in> set (split_acc sep acc s). sep \<notin> set l"
proof (induction s arbitrary: acc)
  case Nil
  then show ?case by simp
next
  case (Cons x xs)
  show ?case
  proof (cases "x = sep")
    case True
    with Cons.prems Cons.IH [of "[]"] show ?thesis by simp
  next
    case False
    with Cons.prems Cons.IH [of "x # acc"] show ?thesis by simp
  qed
qed

lemma split_acc_acc:
  "split_acc sep acc s = (rev acc @ hd (split_acc sep [] s)) # tl (split_acc sep [] s)"
proof (induction s arbitrary: acc)
  case Nil
  show ?case by simp
next
  case (Cons x xs)
  show ?case
  proof (cases "x = sep")
    case True
    then show ?thesis by simp
  next
    case False
    then show ?thesis
      using Cons [of "x # acc"] Cons [of "[x]"] by simp
  qed
qed

lemma trim_Cons_space: "is_space x \<Longrightarrow> trim (x # l) = trim l"
  by (simp add: trim_def)

lemma trim_snoc_space: "is_space x \<Longrightarrow> trim (l @ [x]) = trim l"
proof (cases "\<forall>c \<in> set l. is_space c")
  case True
  assume "is_space x"
  with True have "dropWhile is_space (l @ [x]) = []" by simp
  moreover from True have "dropWhile is_space l = []" by simp
  ultimately show ?thesis by (simp only: trim_def rev.simps dropWhile.simps)
next
  case False
  assume x: "is_space x"
  from False obtain c where "c \<in> set l" "\<not> is_space c" by blast
  then have "dropWhile is_space (l @ [x]) = dropWhile is_space l @ [x]"
    by (rule dropWhile_append1)
  with x show ?thesis by (simp add: trim_def)
qed

lemma is_space_newline: "is_space 10"
  by (simp add: is_space_def in_range_def)

lemma section_lines_Cons_space:
  assumes "is_space x"
  shows "section_lines (x # s) = section_lines s"
proof (cases "x = 10")
  case True
  then show ?thesis by (simp add: section_lines_def split_str_def nonempty_def trim_def)
next
  case False
  have "split_acc 10 [x] s = (x # hd (split_acc 10 [] s)) # tl (split_acc 10 [] s)"
    using split_acc_acc [of 10 "[x]" s] by simp
  moreover have "split_acc 10 [] s = hd (split_acc 10 [] s) # tl (split_acc 10 [] s)"
    using split_acc_acc [of 10 "[]" s] by simp
  ultimately have "map trim (split_acc 10 [x] s) = map trim (split_acc 10 [] s)"
    using assms by (metis list.simps(9) trim_Cons_space)
  with False show ?thesis by (simp add: section_lines_def split_str_def)
qed

lemma section_lines_dropWhile: "section_lines (dropWhile is_space s) = section_lines s"
  by (induction s) (simp_all add: section_lines_Cons_space)

lemma split_acc_nonempty: "split_acc sep acc s \<noteq> []"
  by (induction s arbitrary: acc) simp_all

lemma split_acc_snoc:
  "split_acc sep acc (s @ [x]) =
     (if x = sep then split_acc sep acc s @ [[]]
      else butlast (split_acc sep acc s) @ [last (split_acc sep acc s) @ [x]])"
proof (induction s arbitrary: acc)
  case Nil
  show ?case by simp
next
  case (Cons y ys)
  show ?case
  proof (cases "y = sep")
    case True
    then have "split_acc sep acc ((y # ys) @ [x]) = rev acc # split_acc sep [] (ys @ [x])"
      and "split_acc sep acc (y # ys) = rev acc # split_acc sep [] ys" by simp_all
    with Cons [of "[]"] split_acc_nonempty [of sep "[]" ys] show ?thesis by simp
  next
    case False
    then have "split_acc sep acc ((y # ys) @ [x]) = split_acc sep (y # acc) (ys @ [x])"
      and "split_acc sep acc (y # ys) = split_acc sep (y # acc) ys" by simp_all
    with Cons [of "y # acc"] show ?thesis by simp
  qed
qed

lemma section_lines_snoc_space:
  assumes "is_space x"
  shows "section_lines (s @ [x]) = section_lines s"
proof (cases "x = 10")
  case True
  then show ?thesis
    by (simp add: section_lines_def split_str_def split_acc_snoc nonempty_def trim_def)
next
  case False
  define ps where "ps = split_acc 10 [] s"
  have ne: "ps \<noteq> []" by (simp add: ps_def split_acc_nonempty)
  then have ps: "ps = butlast ps @ [last ps]" by simp
  have "map trim (butlast ps @ [last ps @ [x]]) = map trim (butlast ps @ [last ps])"
    using assms by (simp add: trim_snoc_space)
  with ps have "map trim (butlast ps @ [last ps @ [x]]) = map trim ps" by simp
  with False show ?thesis
    by (simp add: section_lines_def split_str_def split_acc_snoc ps_def)
qed

lemma section_lines_drop_trailing: "section_lines (rev (dropWhile is_space (rev s))) = section_lines s"
  by (induction s rule: rev_induct) (simp_all add: section_lines_snoc_space)

lemma section_lines_trim: "section_lines (trim s) = section_lines s"
  by (simp add: trim_def section_lines_drop_trailing section_lines_dropWhile)

lemma js_newline: "js ''\<newline>'' = [10]"
  by (simp add: js_def)

lemma section_lines_join:
  assumes "ls \<noteq> []" "\<forall>l \<in> set ls. 10 \<notin> set l"
  shows "section_lines (join_str (js ''\<newline>'') ls) = nonempty (map trim ls)"
  using split_join [OF assms] by (simp add: section_lines_def split_str_def js_newline)

lemma section_range_shape:
  assumes "section_range lines re = Some (a, b)"
  shows "a < b \<and> b \<le> length lines"
proof (cases "dropWhile (\<lambda>l. \<not> test re l) lines")
  case Nil
  with assms show ?thesis by (simp add: section_range_spec del: dropWhile_eq_Nil_conv)
next
  case (Cons h rest)
  with assms have a: "a = length (takeWhile (\<lambda>l. \<not> test re l) lines)"
    and b: "b = Suc a + length (takeWhile (\<lambda>l. \<not> header_line l) rest)"
    by (simp_all add: section_range_spec)
  have dr: "drop a lines = h # rest"
    using Cons by (simp add: a dropWhile_eq_drop)
  then have "length (h # rest) = length lines - a" by (metis length_drop)
  moreover have "length (takeWhile (\<lambda>l. \<not> header_line l) rest) \<le> length rest"
    by (rule length_takeWhile_le)
  ultimately show ?thesis using b by simp
qed

lemma section_lines_findSection:
  assumes "section_range (split_str 10 text) re = Some (a, b)"
  shows "section_lines (findSection text re)
         = nonempty (map trim (take (b - a) (drop a (split_str 10 text))))"
proof -
  define ls where "ls = take (b - a) (drop a (split_str 10 text))"
  from section_range_shape [OF assms] have "ls \<noteq> []" by (simp add: ls_def)
  moreover have "\<forall>l \<in> set ls. 10 \<notin> set l"
    using split_acc_no_sep [of 10 "[]"]
    by (auto simp: ls_def split_str_def dest!: in_set_takeD in_set_dropD)
  ultimately have "section_lines (join_str (js ''\<newline>'') ls) = nonempty (map trim ls)"
    by (rule section_lines_join)
  with assms show ?thesis
    by (simp add: findSection_def Let_def section_lines_trim ls_def)
qed

subsection \<open>The classifiers and their ranges\<close>

text \<open>
  C4 (as amended). Every section classifier reads the bounded range of its own section
  only. The lines of the text that \<^verbatim>\<open>findSection\<close> returns for a header pattern are the
  trimmed non-empty lines of the input in the section's range. A string is a skill
  exactly when it is the capitalised form of an item of a token of the skills section.
  Every field of an education entry is made of lines of the education section, joined
  by single spaces. The bullets of an experience entry are the bullets of lines of the
  experience section, its period is one of these lines, and its role and company are
  those that one of these lines gives. The description of a project entry is made of
  lines of the projects section, and its name, its link and each of its tech names are
  those that one of these lines gives. The summary is made of lines of the summary
  section or, by design, of lines of the whole text when there is no summary section.
  The range of a section ends at or before the first line of a section that starts on a
  later line, when that line starts with a header keyword followed by a word boundary;
  the two ranges then share no line.
\<close>

theorem classifier_reads_own_range:
  "(section_range (split_str 10 text) re = Some (a, b)
      \<longrightarrow> findSection text re
            = trim (join_str (js ''\<newline>'') (take (b - a) (drop a (split_str 10 text))))
          \<and> section_lines (findSection text re)
            = nonempty (map trim (take (b - a) (drop a (split_str 10 text)))))
   \<and> (s \<in> set (extractSkills text)) = skill_from (findSection text skills_hdr_re) s
   \<and> (extractEducation text = Inr es
      \<longrightarrow> (\<forall>e \<in> set es. edu_from (section_lines (findSection text edu_hdr_re)) e))
   \<and> (extractExperience text = Inr xs
      \<longrightarrow> (\<forall>e \<in> set xs. exp_from (section_lines (findSection text exp_hdr_re)) e))
   \<and> (extractProjects text = Inr ps
      \<longrightarrow> (\<forall>p \<in> set ps. proj_from (section_lines (findSection text proj_hdr_re)) p))
   \<and> built_from (summary_source text) (extractSummary text nm)
   \<and> (section_range lines re1 = Some (a1, b1) \<and> section_range lines re2 = Some (a2, b2)
        \<and> a1 < a2 \<and> header_line (lines ! a2)
      \<longrightarrow> a1 < b1 \<and> b1 \<le> a2 \<and> a2 < b2 \<and> b2 \<le> length lines)"
proof -
  have "section_range (split_str 10 text) re = Some (a, b)
      \<longrightarrow> findSection text re
            = trim (join_str (js ''\<newline>'') (take (b - a) (drop a (split_str 10 text))))"
    by (simp add: findSection_def)
  then show ?thesis
    using section_lines_findSection [of _ re a b]
      extractSkills_from_section [of s]
      extractEducation_from_section [of _ es]
      extractExperience_from_section [of _ xs]
      extractProjects_from_section [of _ ps]
      extractSummary_from_source [of _ nm]
      range_ends_before_next_header [of lines re1 a1 b1 re2 a2 b2]
    by blast
qed

lemma sections_skills: "extractSkills sections_input = [js ''Go'', js ''Rust'']"
  by code_simp

lemma sections_education:
  "extractEducation sections_input =
     Inr [\<lparr>degree = js ''B.Sc Physics'', institution = js ''XYZ University'',
           period = [], details = []\<rparr>]
   \<and> section_lines (findSection sections_input edu_hdr_re)
       = [js ''Education'', js ''B.Sc Physics'', js ''XYZ University'']"
  by code_simp

lemma sections_experience:
  "extractExperience sections_input =
     Inr [\<lparr>company = js ''Acme'', role = js ''Engineer'', exp_period = js ''2019 to 2021'',
           bullets = [js ''built x'']\<rparr>]
   \<and> section_lines (findSection sections_input exp_hdr_re)
       = [js ''Experience'', js ''Engineer at Acme'', js ''2019 to 2021'', js ''- built x'']"
  by code_simp

lemma sections_projects:
  "extractProjects sections_input =
     Inr [\<lparr>proj_name = js ''Tracker'', description = js ''a small app'',
           tech = [js ''Go'', js ''SQL''], link = js ''https://a.io''\<rparr>]
   \<and> section_lines (findSection sections_input proj_hdr_re)
       = [js ''Projects'', js ''Tracker'', js ''Tech: Go, SQL'', js ''https://a.io'',
          js ''a small app'']"
  by code_simp

lemma sections_ranges:
  "section_range (split_str 10 sections_input) exp_hdr_re = Some (2, 6)
   \<and> section_range (split_str 10 sections_input) proj_hdr_re = Some (6, 11)
   \<and> header_line (split_str 10 sections_input ! 6)"
  by code_simp

theorem classifier_reads_own_range_witness:
  "skill_from (findSection sections_input skills_hdr_re) (js ''Go'')
   \<and> extractEducation sections_input =
     Inr [\<lparr>degree = js ''B.Sc Physics'', institution = js ''XYZ University'',
           period = [], details = []\<rparr>]
   \<and> edu_from [js ''Education'', js ''B.Sc Physics'', js ''XYZ University'']
        \<lparr>degree = js ''B.Sc Physics'', institution = js ''XYZ University'',
         period = [], details = []\<rparr>
   \<and> exp_from [js ''Experience'', js ''Engineer at Acme'', js ''2019 to 2021'', js ''- built x'']
        \<lparr>company = js ''Acme'', role = js ''Engineer'', exp_period = js ''2019 to 2021'',
         bullets = [js ''built x'']\<rparr>
   \<and> proj_from [js ''Projects'', js ''Tracker'', js ''Tech: Go, SQL'', js ''https://a.io'',
                js ''a small app'']
        \<lparr>proj_name = js ''Tracker'', description = js ''a small app'',
         tech = [js ''Go'', js ''SQL''], link = js ''https://a.io''\<rparr>
   \<and> section_range (split_str 10 sections_input) exp_hdr_re = Some (2, 6)
   \<and> section_range (split_str 10 sections_input) proj_hdr_re = Some (6, 11)
   \<and> nonempty (map trim (take (6 - 2) (drop 2 (split_str 10 sections_input))))
       = [js ''Experience'', js ''Engineer at Acme'', js ''2019 to 2021'', js ''- built x'']
   \<and> (6::nat) \<le> 6"
proof -
  note own = classifier_reads_own_range [where ?text = sections_input and re = exp_hdr_re
      and a = 2 and b = 6 and s = "js ''Go''"
      and es = "[\<lparr>degree = js ''B.Sc Physics'', institution = js ''XYZ University'',
                  period = [], details = []\<rparr>]"
      and xs = "[\<lparr>company = js ''Acme'', role = js ''Engineer'',
                  exp_period = js ''2019 to 2021'', bullets = [js ''built x'']\<rparr>]"
      and ps = "[\<lparr>proj_name = js ''Tracker'', description = js ''a small app'',
                  tech = [js ''Go'', js ''SQL''], link = js ''https://a.io''\<rparr>]"
      and lines = "split_str 10 sections_input" and ?re1.0 = exp_hdr_re and ?a1.0 = 2
      and ?b1.0 = 6 and ?re2.0 = proj_hdr_re and ?a2.0 = 6 and ?b2.0 = 11]
  have lines: "section_lines (findSection sections_input exp_hdr_re)
               = nonempty (map trim (take (6 - 2) (drop 2 (split_str 10 sections_input))))"
    using own sections_ranges by blast
  have edu: "\<forall>e \<in> set [\<lparr>degree = js ''B.Sc Physics'', institution = js ''XYZ University'',
                               period = [], details = []\<rparr>].
               edu_from (section_lines (findSection sections_input edu_hdr_re)) e"
    using own sections_education by blast
  have expe: "\<forall>e \<in> set [\<lparr>company = js ''Acme'', role = js ''Engineer'',
                                exp_period = js ''2019 to 2021'', bullets = [js ''built x'']\<rparr>].
               exp_from (section_lines (findSection sections_input exp_hdr_re)) e"
    using own sections_experience by blast
  have proj: "\<forall>p \<in> set [\<lparr>proj_name = js ''Tracker'', description = js ''a small app'',
                                tech = [js ''Go'', js ''SQL''], link = js ''https://a.io''\<rparr>].
               proj_from (section_lines (findSection sections_input proj_hdr_re)) p"
    using own sections_projects by blast
  have ends: "(6::nat) \<le> 6"
    using own sections_ranges by simp
  have "(js ''Go'' \<in> set (extractSkills sections_input))
        = skill_from (findSection sections_input skills_hdr_re) (js ''Go'')"
    using own by blast
  then have skill: "skill_from (findSection sections_input skills_hdr_re) (js ''Go'')"
    by (simp add: sections_skills)
  from sections_experience lines
  have lines': "nonempty (map trim (take (6 - 2) (drop 2 (split_str 10 sections_input))))
               = [js ''Experience'', js ''Engineer at Acme'', js ''2019 to 2021'', js ''- built x'']"
    by (simp only:)
  from edu have "edu_from [js ''Education'', js ''B.Sc Physics'', js ''XYZ University'']
        \<lparr>degree = js ''B.Sc Physics'', institution = js ''XYZ University'',
         period = [], details = []\<rparr>"
    by (simp add: sections_education)
  moreover from expe have "exp_from [js ''Experience'', js ''Engineer at Acme'', js ''2019 to 2021'', js ''- built x'']
        \<lparr>company = js ''Acme'', role = js ''Engineer'', exp_period = js ''2019 to 2021'',
         bullets = [js ''built x'']\<rparr>"
    by (simp add: sections_experience)
  moreover from proj have "proj_from [js ''Projects'', js ''Tracker'', js ''Tech: Go, SQL'', js ''https://a.io'',
                js ''a small app'']
        \<lparr>proj_name = js ''Tracker'', description = js ''a small app'',
         tech = [js ''Go'', js ''SQL''], link = js ''https://a.io''\<rparr>"
    by (simp add: sections_projects)
  ultimately show ?thesis
    using sections_education sections_ranges lines' ends skill by blast
qed

text \<open>
  The claim as the specification states it fails: the line "Loves education" lies in the
  bounded range of the Experience section, and it is the degree and the details of the
  education entry, the education pattern matching inside that line.
\<close>

theorem section_isolation_counterexample:
  "js ''Loves education'' \<in> set (section_lines (findSection overlap_input exp_hdr_re))
   \<and> extractExperience overlap_input =
       Inr [\<lparr>company = [], role = [], exp_period = [], bullets = [js ''Loves education'']\<rparr>]
   \<and> extractEducation overlap_input =
       Inr [\<lparr>degree = js ''Loves education'', institution = [], period = [],
             details = js ''Loves education''\<rparr>]"
  by code_simp

section \<open>Scenarios\<close>

lemma scenario_1_record:
  "parseResumeText scenario_1 =
     Inr \<lparr>name = js ''Jane Doe'', title = js ''Software Engineer'',
          contact = \<lparr>email = js ''jane@x.com'', phone = js ''2018 - 2022'',
                     location = js ''Go, Rust, Python'', links = []\<rparr>,
          summary = [], skills = [js ''Go'', js ''Rust'', js ''Python''],
          education = [\<lparr>degree = js ''B.Tech Computer Science'',
                        institution = js ''XYZ University'',
                        period = js ''2018 - 2022'', details = []\<rparr>],
          experience = [], projects = []\<rparr>"
  by code_simp

text \<open>
  C2. On the input of Scenario 1 the parser returns a record with name "Jane Doe",
  title "Software Engineer", e-mail "jane@x.com", skills Go, Rust and Python, and the
  one education entry of the degree "B.Tech Computer Science" at "XYZ University",
  period "2018 - 2022", no details.
\<close>

theorem scenario_1_fields:
  "\<exists>r. parseResumeText scenario_1 = Inr r
       \<and> name r = js ''Jane Doe''
       \<and> title r = js ''Software Engineer''
       \<and> email (contact r) = js ''jane@x.com''
       \<and> skills r = [js ''Go'', js ''Rust'', js ''Python'']
       \<and> education r = [\<lparr>degree = js ''B.Tech Computer Science'',
                           institution = js ''XYZ University'',
                           period = js ''2018 - 2022'', details = []\<rparr>]"
  by (simp add: scenario_1_record)

text \<open>
  C5 (as amended). For the Skills section with the line "Languages: JavaScript,
  TypeScript" the skills are "JavaScript" and "TypeScript": the label up to the first
  colon is dropped, and in each remaining token the first letter of every word is made
  upper case while all other letters stay as they are; runs of white space become one
  space, and a token is kept where it first occurs.
\<close>

theorem skills_keep_inner_capitals:
  "extractSkills languages_input = [js ''JavaScript'', js ''TypeScript'']
   \<and> extractSkills tools_input = [js ''Unit Testing'', js ''Go'']"
  by code_simp

text \<open>
  The claim as the specification states it gives "Javascript" and "Typescript"; \<^verbatim>\<open>cap\<close>
  lowers no letter.
\<close>

theorem skills_lower_case_counterexample:
  "extractSkills languages_input \<noteq> [js ''Javascript'', js ''Typescript'']"
  by code_simp

end
